theory Spec2Isabelle
  imports Complex_Main "HOL-Library.Word" "HOL-Library.Log_Nat"
begin

section \<open>Software-PWM servo driver of the ATmega32 driver collection\<close>

text \<open>
  The development embeds \<^verbatim>\<open>HAL/SERVO/SERVO.c\<close> and \<^verbatim>\<open>HAL/SERVO/SERVO_def.h\<close>:
  the registry of servo channels, the registration and angle-setting calls, and the
  Timer1 compare-match handler that multiplexes the pulses.

  The target is the AVR ATmega32 compiled with avr-gcc: \<^verbatim>\<open>int\<close> has 16 bits,
  \<^verbatim>\<open>unsigned long\<close> has 32 bits, \<^verbatim>\<open>uint8\<close>, \<^verbatim>\<open>uint16\<close>, \<^verbatim>\<open>uint32\<close> are the
  unsigned types of 8, 16 and 32 bits.
\<close>

subsection \<open>Data model\<close>

type_synonym uint8 = "8 word"
type_synonym uint16 = "16 word"
type_synonym uint32 = "32 word"

text \<open>
  \<^verbatim>\<open>typedef struct { uint32 port : 2; uint32 pin : 3; uint32 ticks : 27; } Servo;\<close>
  A bit-field of width \<open>w\<close> holds its value modulo \<open>2 ^ w\<close>: it is a \<open>w word\<close>.
\<close>

record Servo =
  port :: "2 word"
  pin :: "3 word"
  ticks :: "27 word"

datatype level = LOW | HIGH

datatype direction = INPUT | OUTPUT | INPUT_PULLUP

text \<open>
  The calls the driver makes into the DIO and TIMER1 drivers, in the order they are made.
\<close>

datatype hw_call =
    PinDirection uint8 uint8 direction
  | PinValue uint8 uint8 level
  | TimerValue uint16
  | CompareB uint16
  | CallbackCOMPB

text \<open>
  The globals of \<^verbatim>\<open>SERVO.c\<close> (\<open>servos\<close>, \<open>servo_count\<close>), the static variable
  \<open>servo_id\<close> of \<^verbatim>\<open>SERVO_Interrupt\<close>, and the part of the hardware the driver touches:
  the counter register \<open>TCNT1\<close> and the compare register \<open>OCR1B\<close> of Timer1, whether the
  compare-B callback is \<^verbatim>\<open>SERVO_Interrupt\<close>, and the trace of driver calls.
\<close>

record state =
  servos :: "Servo list"
  servo_count :: uint8
  servo_id :: uint8
  TCNT1 :: uint16
  OCR1B :: uint16
  compb_callback :: bool
  hw_trace :: "hw_call list"

text \<open>
  Build-time configuration that \<^verbatim>\<open>SERVO_def.h\<close> uses and does not define: the clock
  frequency \<^verbatim>\<open>F_CPU\<close> and the prescaler \<^verbatim>\<open>TIMER1_PRESCALER\<close> (both enter the tick
  conversion as \<^verbatim>\<open>unsigned long\<close>), and the number of mantissa bits of the type
  \<^verbatim>\<open>double\<close> (24 with avr-gcc's default 32-bit double, 53 with a 64-bit double).
\<close>

record config =
  F_CPU :: uint32
  TIMER1_PRESCALER :: uint32
  DBL_MANT_DIG :: nat

subsection \<open>Constants of \<^verbatim>\<open>SERVO_def.h\<close>\<close>

definition SERVO_MAX_NUM :: int where
  "SERVO_MAX_NUM = 9"

definition SERVO_MIN_ANGLE :: int where
  "SERVO_MIN_ANGLE = 0"

definition SERVO_MAX_ANGLE :: int where
  "SERVO_MAX_ANGLE = 180"

definition SERVO_PWM_INTERVAL_US :: int where
  "SERVO_PWM_INTERVAL_US = 20000"

definition SERVO_MIN_PULSE_US :: int where
  "SERVO_MIN_PULSE_US = 1000"

text \<open>
  \<^verbatim>\<open>#define SERVO_US_TO_TICKS( US ) ( ( ( US ) * ( F_CPU / 1000000UL ) ) / ( TIMER1_PRESCALER ) )\<close>
  All of it is \<^verbatim>\<open>unsigned long\<close> arithmetic: the product wraps modulo \<open>2 ^ 32\<close>.
\<close>

definition SERVO_US_TO_TICKS :: "config \<Rightarrow> uint32 \<Rightarrow> uint32" where
  "SERVO_US_TO_TICKS cfg us = (us * (F_CPU cfg div 1000000)) div TIMER1_PRESCALER cfg"

definition SERVO_PWM_INTERVAL_TICKS :: "config \<Rightarrow> uint32" where
  "SERVO_PWM_INTERVAL_TICKS cfg = SERVO_US_TO_TICKS cfg (word_of_int SERVO_PWM_INTERVAL_US)"

definition SERVO_MIN_PULSE_TICKS :: "config \<Rightarrow> uint32" where
  "SERVO_MIN_PULSE_TICKS cfg = SERVO_US_TO_TICKS cfg (word_of_int SERVO_MIN_PULSE_US)"

text \<open>
  \<^verbatim>\<open>#define SERVO_MAX_PULSE_US 200\<close>, with the comment "Number of microseconds in
  maximum pulse width (2ms)". No function of the driver uses this macro or
  \<^verbatim>\<open>SERVO_MAX_PULSE_TICKS\<close>.
\<close>

definition SERVO_MAX_PULSE_US :: int where
  "SERVO_MAX_PULSE_US = 200"

definition SERVO_MAX_PULSE_TICKS :: "config \<Rightarrow> uint32" where
  "SERVO_MAX_PULSE_TICKS cfg = SERVO_US_TO_TICKS cfg (word_of_int SERVO_MAX_PULSE_US)"

text \<open>
  A configuration the driver can be built with: the prescaler is not 0 (the macro divides
  by it), and \<^verbatim>\<open>double\<close> is the 32-bit or the 64-bit binary format.
\<close>

definition config_ok :: "config \<Rightarrow> bool" where
  "config_ok cfg \<longleftrightarrow>
     TIMER1_PRESCALER cfg \<noteq> 0 \<and> (DBL_MANT_DIG cfg = 24 \<or> DBL_MANT_DIG cfg = 53)"

subsection \<open>The DIO and TIMER1 drivers\<close>

text \<open>
  Modelled from the spec: the drivers \<^verbatim>\<open>MCAL/DIO\<close> and \<^verbatim>\<open>MCAL/TIMER1\<close> are not part of
  the sources at hand. Section 6 of the specification gives their interface: pin direction
  and pin level are set synchronously and cannot fail; the timer is a free-running counter
  that can be read and reset, with a settable compare value and a compare-match callback.
  A DIO call is recorded in the trace; a timer call is recorded and updates the register
  it writes. Ports, pins and levels are passed as \<open>uint8\<close>, as everywhere in the
  collection; counter and compare values are \<open>uint16\<close>, the width of the registers of
  Timer1.
\<close>

definition DIO_SetPinDirection :: "uint8 \<Rightarrow> uint8 \<Rightarrow> direction \<Rightarrow> state \<Rightarrow> state" where
  "DIO_SetPinDirection prt pn d s = s\<lparr>hw_trace := hw_trace s @ [PinDirection prt pn d]\<rparr>"

definition DIO_SetPinValue :: "uint8 \<Rightarrow> uint8 \<Rightarrow> level \<Rightarrow> state \<Rightarrow> state" where
  "DIO_SetPinValue prt pn v s = s\<lparr>hw_trace := hw_trace s @ [PinValue prt pn v]\<rparr>"

definition TIMER1_SetTimerValue :: "uint16 \<Rightarrow> state \<Rightarrow> state" where
  "TIMER1_SetTimerValue v s = s\<lparr>TCNT1 := v, hw_trace := hw_trace s @ [TimerValue v]\<rparr>"

definition TIMER1_GetTimerValue :: "state \<Rightarrow> uint16" where
  "TIMER1_GetTimerValue s = TCNT1 s"

definition TIMER1_SetCompare_B_Value :: "uint16 \<Rightarrow> state \<Rightarrow> state" where
  "TIMER1_SetCompare_B_Value v s = s\<lparr>OCR1B := v, hw_trace := hw_trace s @ [CompareB v]\<rparr>"

definition TIMER1_SetCallback_COMPB :: "state \<Rightarrow> state" where
  "TIMER1_SetCallback_COMPB s =
     s\<lparr>compb_callback := True, hw_trace := hw_trace s @ [CallbackCOMPB]\<rparr>"

subsection \<open>The state at power-on\<close>

text \<open>
  \<^verbatim>\<open>Servo servos[SERVO_MAX_NUM]; uint8 servo_count = 0; static uint8 servo_id = 0xFF;\<close>
  The array has static storage and starts zeroed. The timer registers start at whatever
  \<^verbatim>\<open>TIMER1_Init\<close> left in them.
\<close>

definition init_state :: "uint16 \<Rightarrow> uint16 \<Rightarrow> state" where
  "init_state tcnt ocr =
     \<lparr>servos = replicate (nat SERVO_MAX_NUM) \<lparr>port = 0, pin = 0, ticks = 0\<rparr>,
      servo_count = 0, servo_id = 0xFF,
      TCNT1 = tcnt, OCR1B = ocr, compb_callback = False, hw_trace = []\<rparr>"

subsection \<open>\<^verbatim>\<open>SERVO_Interrupt\<close>\<close>

text \<open>
  The two halves of the handler. The first ends the running pulse or starts a frame; the
  second starts the next pulse or arms the end of the frame.

  \<^verbatim>\<open>TIMER1_GetTimerValue() + servos[servo_id].ticks\<close> adds a \<open>uint16\<close> and a 27-bit
  field of type \<open>uint32\<close>: the sum is \<open>unsigned long\<close> and the \<open>uint16\<close> parameter keeps
  its low 16 bits. \<^verbatim>\<open>TIMER1_GetTimerValue() + 50\<close> adds a \<open>uint16\<close> and an \<open>int\<close>, both
  16 bits wide: the sum is a 16-bit unsigned value, and the comparison with the
  \<open>unsigned long\<close> interval widens it.
\<close>

definition servo_at :: "state \<Rightarrow> uint8 \<Rightarrow> Servo" where
  "servo_at s i = servos s ! unat i"

definition SERVO_Interrupt_end_pulse :: "state \<Rightarrow> state" where
  "SERVO_Interrupt_end_pulse s =
     (if servo_id s < servo_count s
      then (DIO_SetPinValue (ucast (port (servo_at s (servo_id s))))
                            (ucast (pin (servo_at s (servo_id s)))) LOW s)
             \<lparr>servo_id := servo_id s + 1\<rparr>
      else (TIMER1_SetTimerValue 0 s)\<lparr>servo_id := 0\<rparr>)"

definition SERVO_Interrupt_next_pulse :: "config \<Rightarrow> state \<Rightarrow> state" where
  "SERVO_Interrupt_next_pulse cfg s =
     (if servo_id s < servo_count s
      then (if 0 < ticks (servo_at s (servo_id s))
            then DIO_SetPinValue (ucast (port (servo_at s (servo_id s))))
                                 (ucast (pin (servo_at s (servo_id s)))) HIGH
                   (TIMER1_SetCompare_B_Value
                      (ucast ((ucast (TIMER1_GetTimerValue s) :: uint32)
                                + ucast (ticks (servo_at s (servo_id s))))) s)
            else s)
      else (if (ucast (TIMER1_GetTimerValue s + 50) :: uint32) < SERVO_PWM_INTERVAL_TICKS cfg
            then TIMER1_SetCompare_B_Value (ucast (SERVO_PWM_INTERVAL_TICKS cfg)) s
            else TIMER1_SetCompare_B_Value (TIMER1_GetTimerValue s + 20) s))"

definition SERVO_Interrupt :: "config \<Rightarrow> state \<Rightarrow> state" where
  "SERVO_Interrupt cfg s = SERVO_Interrupt_next_pulse cfg (SERVO_Interrupt_end_pulse s)"

subsection \<open>\<^verbatim>\<open>SERVO_Init\<close>\<close>

text \<open>
  The three field assignments store the arguments into the bit-fields, which keeps their
  low 2 and 3 bits; the DIO calls receive the arguments as passed.
\<close>

definition SERVO_Init :: "uint8 \<Rightarrow> uint8 \<Rightarrow> state \<Rightarrow> uint8 \<times> state" where
  "SERVO_Init prt pn s =
     (if SERVO_MAX_NUM \<le> uint (servo_count s) then (0xFF, s)
      else
        let s1 = (if servo_count s = 0
                  then TIMER1_SetTimerValue 0 (TIMER1_SetCallback_COMPB s)
                  else s);
            i = unat (servo_count s1);
            s2 = s1\<lparr>servos := (servos s1)[i := (servos s1 ! i)\<lparr>port := ucast prt\<rparr>]\<rparr>;
            s3 = s2\<lparr>servos := (servos s2)[i := (servos s2 ! i)\<lparr>pin := ucast pn\<rparr>]\<rparr>;
            s4 = s3\<lparr>servos := (servos s3)[i := (servos s3 ! i)\<lparr>ticks := 0\<rparr>]\<rparr>;
            s5 = DIO_SetPinDirection prt pn OUTPUT s4;
            s6 = DIO_SetPinValue prt pn LOW s5
        in (servo_count s6, s6\<lparr>servo_count := servo_count s6 + 1\<rparr>))"

subsection \<open>The type \<^verbatim>\<open>double\<close>\<close>

text \<open>
  A binary floating-point format with \<open>p\<close> mantissa bits: every operation returns the
  representable number nearest to the exact result, ties to the even mantissa (the
  default rounding of IEEE 754). The exponent range is not modelled: every value the
  driver computes is 0 or lies between 1 and 4096.

  \<open>ilog2 x\<close> is the integer \<open>k\<close> with \<open>2 ^ k \<le> x < 2 ^ (k + 1)\<close>, for positive \<open>x\<close>.
\<close>

definition pow2 :: "int \<Rightarrow> real" where
  "pow2 e = (if 0 \<le> e then 2 ^ nat e else 1 / 2 ^ nat (- e))"

definition ilog2 :: "real \<Rightarrow> int" where
  "ilog2 x = (if 1 \<le> x then bitlen \<lfloor>x\<rfloor> - 1 else - bitlen (\<lceil>1 / x\<rceil> - 1))"

definition round_half_even :: "real \<Rightarrow> int" where
  "round_half_even x =
     (let f = \<lfloor>x\<rfloor>; r = x - of_int f
      in if r < 1 / 2 then f
         else if 1 / 2 < r then f + 1
         else if even f then f else f + 1)"

definition fl :: "nat \<Rightarrow> real \<Rightarrow> real" where
  "fl p x =
     (if x = 0 then 0
      else let e = ilog2 \<bar>x\<bar> + 1 - int p
           in sgn x * of_int (round_half_even (\<bar>x\<bar> / pow2 e)) * pow2 e)"

definition double_of_int :: "nat \<Rightarrow> int \<Rightarrow> real" where
  "double_of_int p i = fl p (of_int i)"

definition double_div :: "nat \<Rightarrow> real \<Rightarrow> real \<Rightarrow> real" where
  "double_div p x y = fl p (x / y)"

definition double_mul :: "nat \<Rightarrow> real \<Rightarrow> real \<Rightarrow> real" where
  "double_mul p x y = fl p (x * y)"

definition double_add :: "nat \<Rightarrow> real \<Rightarrow> real \<Rightarrow> real" where
  "double_add p x y = fl p (x + y)"

text \<open>Conversion to \<open>uint16\<close> discards the fraction (rounds towards zero).\<close>

definition uint16_of_double :: "real \<Rightarrow> uint16" where
  "uint16_of_double x = word_of_int (if 0 \<le> x then \<lfloor>x\<rfloor> else \<lceil>x\<rceil>)"

subsection \<open>\<^verbatim>\<open>SERVO_SetAngleByID\<close> and \<^verbatim>\<open>SERVO_SetAngleByPin\<close>\<close>

text \<open>
  \<^verbatim>\<open>uint16 microseconds = SERVO_MIN_PULSE_US + angle * ( 1000.0 / 180 );\<close>
  The quotient, the product and the sum are \<open>double\<close> operations; \<open>180\<close>, \<open>angle\<close> and
  \<open>SERVO_MIN_PULSE_US\<close> are converted from \<open>int\<close>.
\<close>

definition microseconds_double :: "nat \<Rightarrow> int \<Rightarrow> real" where
  "microseconds_double p angle =
     double_add p (double_of_int p SERVO_MIN_PULSE_US)
       (double_mul p (double_of_int p angle)
          (double_div p (fl p 1000) (double_of_int p 180)))"

definition microseconds :: "config \<Rightarrow> uint8 \<Rightarrow> uint16" where
  "microseconds cfg angle =
     uint16_of_double (microseconds_double (DBL_MANT_DIG cfg) (uint angle))"

text \<open>\<^verbatim>\<open>SERVO_US_TO_TICKS( microseconds )\<close>, the value assigned to the field \<open>ticks\<close>.\<close>

definition AngleToTicks :: "config \<Rightarrow> uint8 \<Rightarrow> uint32" where
  "AngleToTicks cfg angle = SERVO_US_TO_TICKS cfg (ucast (microseconds cfg angle))"

definition SERVO_SetAngleByID :: "config \<Rightarrow> uint8 \<Rightarrow> uint8 \<Rightarrow> state \<Rightarrow> state" where
  "SERVO_SetAngleByID cfg sid angle s =
     (if SERVO_MIN_ANGLE \<le> uint angle \<and> uint angle \<le> SERVO_MAX_ANGLE \<and> sid < servo_count s
      then s\<lparr>servos := (servos s)[unat sid :=
                (servos s ! unat sid)\<lparr>ticks := ucast (AngleToTicks cfg angle)\<rparr>]\<rparr>
      else s)"

text \<open>
  The loop of \<^verbatim>\<open>SERVO_SetAngleByPin\<close>, from index \<open>i\<close> on. The comparisons are between
  a bit-field and a \<open>uint8\<close>, both promoted to \<open>int\<close>.
\<close>

function SERVO_SetAngleByPin_from ::
  "config \<Rightarrow> uint8 \<Rightarrow> uint8 \<Rightarrow> uint8 \<Rightarrow> uint8 \<Rightarrow> state \<Rightarrow> state" where
  "SERVO_SetAngleByPin_from cfg prt pn angle i s =
     (if i < servo_count s
      then SERVO_SetAngleByPin_from cfg prt pn angle (i + 1)
             (if uint (pin (servo_at s i)) = uint pn \<and> uint (port (servo_at s i)) = uint prt
              then SERVO_SetAngleByID cfg i angle s
              else s)
      else s)"
  by pat_completeness auto
termination
proof (relation "measure (\<lambda>(cfg, prt, pn, angle, i, s). unat (servo_count s) - unat i)")
  show "wf (measure (\<lambda>(cfg, prt, pn, angle, i, s). unat (servo_count s) - unat i))"
    by simp
next
  fix cfg :: config and prt pn angle i :: uint8 and s :: state
  assume lt: "i < servo_count s"
  then have "unat i < unat (servo_count s)"
    by (simp add: word_less_nat_alt)
  moreover have "unat (i + 1) = unat i + 1"
    using lt unsigned_less [of "servo_count s", where 'a = nat]
    by (simp add: unat_word_ariths word_less_nat_alt)
  moreover have "servo_count (SERVO_SetAngleByID cfg i angle s) = servo_count s"
    by (simp add: SERVO_SetAngleByID_def)
  ultimately show
    "((cfg, prt, pn, angle, i + 1,
       if uint (pin (servo_at s i)) = uint pn \<and> uint (port (servo_at s i)) = uint prt
       then SERVO_SetAngleByID cfg i angle s else s),
      (cfg, prt, pn, angle, i, s))
     \<in> measure (\<lambda>(cfg, prt, pn, angle, i, s). unat (servo_count s) - unat i)"
    by auto
qed

declare SERVO_SetAngleByPin_from.simps [simp del]

definition SERVO_SetAngleByPin :: "config \<Rightarrow> uint8 \<Rightarrow> uint8 \<Rightarrow> uint8 \<Rightarrow> state \<Rightarrow> state" where
  "SERVO_SetAngleByPin cfg prt pn angle s = SERVO_SetAngleByPin_from cfg prt pn angle 0 s"

subsection \<open>Well-formed states\<close>

text \<open>
  Every array access of the driver is guarded by \<open>index < servo_count\<close>; it is within the
  array of \<open>SERVO_MAX_NUM\<close> elements as long as the count is at most \<open>SERVO_MAX_NUM\<close>.
\<close>

definition wf_state :: "state \<Rightarrow> bool" where
  "wf_state s \<longleftrightarrow>
     length (servos s) = nat SERVO_MAX_NUM \<and> uint (servo_count s) \<le> SERVO_MAX_NUM"

text \<open>The registry: the channels registered so far, in the order of their ids.\<close>

definition registry :: "state \<Rightarrow> Servo list" where
  "registry s = take (unat (servo_count s)) (servos s)"

fun register_all :: "(uint8 \<times> uint8) list \<Rightarrow> state \<Rightarrow> uint8 list \<times> state" where
  "register_all [] s = ([], s)"
| "register_all ((prt, pn) # pps) s =
     (let (i, s1) = SERVO_Init prt pn s;
          (ids, s2) = register_all pps s1
      in (i # ids, s2))"

subsection \<open>The free-running counter\<close>

text \<open>
  Modelled from the spec: the Timer1 hardware is not part of the sources at hand. By the
  specification (sections 2 and 6 and the glossary) the counter runs freely, and a
  compare match is the event that the counter reaches the programmed compare value.
  Timer1 of the ATmega32 is a 16-bit counter: it wraps from \<open>0xFFFF\<close> to 0.
\<close>

definition timer_tick :: "state \<Rightarrow> state" where
  "timer_tick s = s\<lparr>TCNT1 := TCNT1 s + 1\<rparr>"

definition compare_match :: "state \<Rightarrow> bool" where
  "compare_match s \<longleftrightarrow> TCNT1 s = OCR1B s"

text \<open>
  Modelled from the spec: the compare-match interrupt of Timer1 is not part of the sources
  at hand. By section 4.2 of the specification the handler is invoked every time the
  compare register matches the running counter: \<open>ticks_to_match\<close> is the number of ticks
  until the next match, at least one, and \<open>next_invocation\<close> is the invocation of the
  handler at that match.
\<close>

definition ticks_to_match :: "state \<Rightarrow> nat" where
  "ticks_to_match s = (if OCR1B s = TCNT1 s then 2 ^ 16 else unat (OCR1B s - TCNT1 s))"

definition next_invocation :: "config \<Rightarrow> state \<Rightarrow> state" where
  "next_invocation cfg s = SERVO_Interrupt cfg ((timer_tick ^^ ticks_to_match s) s)"

text \<open>The state after \<open>n\<close> compare matches, each one answered by the handler.\<close>

definition invocations :: "config \<Rightarrow> nat \<Rightarrow> state \<Rightarrow> state" where
  "invocations cfg n s = (next_invocation cfg ^^ n) s"

text \<open>
  An invocation of the handler at the moment the counter reads \<open>t\<close>, and a sequence of
  invocations, one for each reading of the list.
\<close>

definition fire :: "config \<Rightarrow> uint16 \<Rightarrow> state \<Rightarrow> state" where
  "fire cfg t s = SERVO_Interrupt cfg (s\<lparr>TCNT1 := t\<rparr>)"

fun fires :: "config \<Rightarrow> uint16 list \<Rightarrow> state \<Rightarrow> state" where
  "fires cfg [] s = s"
| "fires cfg (t # ts) s = fires cfg ts (fire cfg t s)"

text \<open>The calls made between two states, and the pins driven high among a list of calls.\<close>

definition new_calls :: "state \<Rightarrow> state \<Rightarrow> hw_call list" where
  "new_calls s s' = drop (length (hw_trace s)) (hw_trace s')"

fun high_edges :: "hw_call list \<Rightarrow> (uint8 \<times> uint8) list" where
  "high_edges [] = []"
| "high_edges (c # cs) =
     (case c of PinValue prt pn HIGH \<Rightarrow> (prt, pn) # high_edges cs | _ \<Rightarrow> high_edges cs)"

definition channel_pin :: "Servo \<Rightarrow> uint8 \<times> uint8" where
  "channel_pin sv = (ucast (port sv), ucast (pin sv))"


subsection \<open>Reachable states and the pulse-width invariant\<close>

text \<open>
  The states the firmware can be in: power-on, then any sequence of driver calls, counter
  ticks, and handler invocations once the callback is installed. Each call and each
  invocation runs to completion before the next event; a handler that interrupts a call
  half-way is not part of this relation.
\<close>

inductive reachable :: "config \<Rightarrow> state \<Rightarrow> bool" for cfg :: config where
  power_on: "reachable cfg (init_state tcnt ocr)"
| register: "reachable cfg s \<Longrightarrow> reachable cfg (snd (SERVO_Init prt pn s))"
| set_by_id: "reachable cfg s \<Longrightarrow> reachable cfg (SERVO_SetAngleByID cfg sid angle s)"
| set_by_pin: "reachable cfg s \<Longrightarrow> reachable cfg (SERVO_SetAngleByPin cfg prt pn angle s)"
| interrupt: "reachable cfg s \<Longrightarrow> compb_callback s \<Longrightarrow> reachable cfg (SERVO_Interrupt cfg s)"
| tick: "reachable cfg s \<Longrightarrow> reachable cfg (timer_tick s)"

definition pulse_ok :: "config \<Rightarrow> Servo \<Rightarrow> bool" where
  "pulse_ok cfg sv \<longleftrightarrow>
     ticks sv = 0 \<or>
     (SERVO_US_TO_TICKS cfg 1000 \<le> ucast (ticks sv) \<and>
      ucast (ticks sv) \<le> SERVO_US_TO_TICKS cfg 2000)"

definition servo_inv :: "config \<Rightarrow> state \<Rightarrow> bool" where
  "servo_inv cfg s \<longleftrightarrow> wf_state s \<and> (\<forall>sv \<in> set (registry s). pulse_ok cfg sv)"

subsection \<open>A sample configuration\<close>

text \<open>
  An 8 MHz clock with prescaler 8 (one tick per microsecond) and avr-gcc's default 32-bit
  \<^verbatim>\<open>double\<close>; a registry with one servo on port 1, pin 5, after power-on.
\<close>

definition sample_config :: config where
  "sample_config = \<lparr>F_CPU = 8000000, TIMER1_PRESCALER = 8, DBL_MANT_DIG = 24\<rparr>"

definition one_servo :: state where
  "one_servo = snd (SERVO_Init 1 5 (init_state 7 0))"

text \<open>
  Three servos on pins 0, 1 and 2 of port 0; the first is set to 0 degrees, the third to
  180 degrees, the second is never commanded.
\<close>

definition three_servos :: state where
  "three_servos =
     SERVO_SetAngleByID sample_config 2 180
       (SERVO_SetAngleByID sample_config 0 0
          (snd (register_all [(0, 0), (0, 1), (0, 2)] (init_state 0 0))))"

text \<open>
  One servo, never commanded, registered after the timer was set up with the compare
  register at 65500.
\<close>

definition stale_compare :: state where
  "stale_compare = snd (SERVO_Init 1 5 (init_state 0 65500))"


section \<open>Properties\<close>

lemmas hw_defs =
  DIO_SetPinDirection_def DIO_SetPinValue_def TIMER1_SetTimerValue_def
  TIMER1_GetTimerValue_def TIMER1_SetCompare_B_Value_def TIMER1_SetCallback_COMPB_def

lemma wf_init_state: "wf_state (init_state tcnt ocr)"
  by (simp add: wf_state_def init_state_def SERVO_MAX_NUM_def)

lemma SERVO_Init_full:
  "SERVO_MAX_NUM \<le> uint (servo_count s) \<Longrightarrow> SERVO_Init prt pn s = (0xFF, s)"
  by (simp add: SERVO_Init_def)

lemma SERVO_Init_count:
  "uint (servo_count s) < SERVO_MAX_NUM \<Longrightarrow>
   servo_count (snd (SERVO_Init prt pn s)) = servo_count s + 1"
  by (simp add: SERVO_Init_def Let_def hw_defs)

lemma SERVO_Init_length:
  "length (servos (snd (SERVO_Init prt pn s))) = length (servos s)"
  by (simp add: SERVO_Init_def Let_def hw_defs)

lemma uint_count_Suc:
  "uint (c :: uint8) < SERVO_MAX_NUM \<Longrightarrow> uint (c + 1) = uint c + 1"
  by (simp add: SERVO_MAX_NUM_def uint_word_ariths)

lemma wf_SERVO_Init: "wf_state s \<Longrightarrow> wf_state (snd (SERVO_Init prt pn s))"
proof (cases "SERVO_MAX_NUM \<le> uint (servo_count s)")
  case True
  assume "wf_state s"
  with True show ?thesis by (simp add: SERVO_Init_full)
next
  case False
  assume wf: "wf_state s"
  from False have lt: "uint (servo_count s) < SERVO_MAX_NUM" by simp
  have "uint (servo_count s + 1) \<le> SERVO_MAX_NUM"
    using uint_count_Suc [OF lt] lt by simp
  with wf show ?thesis
    by (simp add: wf_state_def SERVO_Init_count [OF lt] SERVO_Init_length)
qed

subsection \<open>Registration\<close>

lemma register_all_count:
  "uint (servo_count s) + int (length pps) \<le> SERVO_MAX_NUM \<Longrightarrow>
   uint (servo_count (snd (register_all pps s))) = uint (servo_count s) + int (length pps)"
proof (induction pps arbitrary: s)
  case Nil
  then show ?case by simp
next
  case (Cons pp pps)
  obtain prt pn where pp: "pp = (prt, pn)" by (cases pp)
  from Cons.prems have lt: "uint (servo_count s) < SERVO_MAX_NUM" by simp
  let ?s1 = "snd (SERVO_Init prt pn s)"
  have c1: "uint (servo_count ?s1) = uint (servo_count s) + 1"
    by (simp add: SERVO_Init_count [OF lt] uint_count_Suc [OF lt])
  with Cons.prems have "uint (servo_count ?s1) + int (length pps) \<le> SERVO_MAX_NUM"
    by simp
  from Cons.IH [OF this] c1 show ?case
    by (simp add: pp split_beta)
qed

text \<open>
  Claim C4. With \<open>SERVO_MAX_NUM\<close> (9) channels registered, \<^verbatim>\<open>SERVO_Init\<close> returns the
  invalid id \<open>0xFF\<close> and the state after the call is the state before it: the array, the
  count, the cursor, the timer registers and the trace of DIO and timer calls are all
  unchanged. Nine registrations from power-on fill the registry, so the tenth call is such
  a call.
\<close>

theorem SERVO_Init_capacity:
  "(SERVO_MAX_NUM \<le> uint (servo_count s) \<longrightarrow> SERVO_Init prt pn s = (0xFF, s)) \<and>
   (length pps = 9 \<longrightarrow>
      SERVO_Init prt pn (snd (register_all pps (init_state tcnt ocr)))
        = (0xFF, snd (register_all pps (init_state tcnt ocr))))"
proof (intro conjI impI)
  assume "SERVO_MAX_NUM \<le> uint (servo_count s)"
  then show "SERVO_Init prt pn s = (0xFF, s)" by (rule SERVO_Init_full)
next
  assume len: "length pps = 9"
  have "uint (servo_count (snd (register_all pps (init_state tcnt ocr)))) = 9"
    using register_all_count [of "init_state tcnt ocr" pps] len
    by (simp add: init_state_def SERVO_MAX_NUM_def)
  then show "SERVO_Init prt pn (snd (register_all pps (init_state tcnt ocr)))
        = (0xFF, snd (register_all pps (init_state tcnt ocr)))"
    by (simp add: SERVO_Init_full SERVO_MAX_NUM_def)
qed

theorem SERVO_Init_capacity_witness:
  "SERVO_Init 3 7 (snd (register_all [(0,0),(0,1),(0,2),(1,0),(1,1),(1,2),(2,0),(2,1),(2,2)] (init_state 0 0)))
     = (0xFF, snd (register_all [(0,0),(0,1),(0,2),(1,0),(1,1),(1,2),(2,0),(2,1),(2,2)] (init_state 0 0)))
   \<and> servo_count (snd (register_all [(0,0),(0,1),(0,2),(1,0),(1,1),(1,2),(2,0),(2,1),(2,2)] (init_state 0 0))) = 9"
proof -
  let ?pps = "[(0,0),(0,1),(0,2),(1,0),(1,1),(1,2),(2,0),(2,1),(2,2)] :: (uint8 \<times> uint8) list"
  let ?s = "snd (register_all ?pps (init_state 0 0))"
  have c: "servo_count ?s = 9"
    by (simp add: init_state_def SERVO_Init_def SERVO_MAX_NUM_def hw_defs Let_def)
  have "length ?pps = 9" by simp
  have "SERVO_MAX_NUM \<le> uint (servo_count ?s)"
    by (simp only: c) (simp add: SERVO_MAX_NUM_def)
  moreover have "length ?pps = 9" by simp
  ultimately have "SERVO_Init 3 7 ?s = (0xFF, ?s)"
    using SERVO_Init_capacity [of ?s 3 7 ?pps 0 0] by blast
  with c show ?thesis by simp
qed

lemma unat_count_Suc:
  assumes "uint (c :: uint8) < SERVO_MAX_NUM"
  shows "unat (c + 1) = Suc (unat c)"
proof -
  have "int (unat (c + 1)) = int (unat c) + 1"
    using uint_count_Suc [OF assms] by (simp only: uint_nat)
  then show ?thesis by linarith
qed

lemma unat_count_less_length:
  assumes "wf_state s" and "uint (servo_count s) < SERVO_MAX_NUM"
  shows "unat (servo_count s) < length (servos s)"
proof -
  have "int (unat (servo_count s)) < SERVO_MAX_NUM"
    using assms(2) by (simp only: uint_nat)
  moreover have "length (servos s) = nat SERVO_MAX_NUM"
    using assms(1) by (simp add: wf_state_def)
  ultimately show ?thesis by linarith
qed

lemma Servo_fields: "r\<lparr>port := a, pin := b, ticks := c\<rparr> = \<lparr>port = a, pin = b, ticks = c\<rparr>"
  by (cases r) simp

lemma SERVO_Init_registry:
  assumes "wf_state s" and lt: "uint (servo_count s) < SERVO_MAX_NUM"
  shows "registry (snd (SERVO_Init prt pn s))
           = registry s @ [\<lparr>port = ucast prt, pin = ucast pn, ticks = 0\<rparr>]"
proof -
  have n: "unat (servo_count s) < length (servos s)"
    using assms by (rule unat_count_less_length)
  from lt have nz: "\<not> SERVO_MAX_NUM \<le> uint (servo_count s)" by simp
  show ?thesis
    using n lt
    by (cases "servo_count s = 0")
      (simp_all add: registry_def SERVO_Init_def Let_def hw_defs unat_count_Suc [OF lt]
        take_Suc_conv_app_nth Servo_fields SERVO_MAX_NUM_def)
qed

lemma SERVO_Init_trace:
  assumes lt: "uint (servo_count s) < SERVO_MAX_NUM"
  shows "hw_trace (snd (SERVO_Init prt pn s))
           = hw_trace s @ (if servo_count s = 0 then [CallbackCOMPB, TimerValue 0] else [])
               @ [PinDirection prt pn OUTPUT, PinValue prt pn LOW]"
proof -
  from lt have nz: "\<not> SERVO_MAX_NUM \<le> uint (servo_count s)" by simp
  show ?thesis by (simp add: SERVO_Init_def nz Let_def hw_defs)
qed

lemma SERVO_Init_timer:
  assumes lt: "uint (servo_count s) < SERVO_MAX_NUM"
  shows "TCNT1 (snd (SERVO_Init prt pn s)) = (if servo_count s = 0 then 0 else TCNT1 s)"
    and "compb_callback (snd (SERVO_Init prt pn s)) = (servo_count s = 0 \<or> compb_callback s)"
    and "OCR1B (snd (SERVO_Init prt pn s)) = OCR1B s"
    and "servo_id (snd (SERVO_Init prt pn s)) = servo_id s"
    and "fst (SERVO_Init prt pn s) = servo_count s"
proof -
  from lt have nz: "\<not> SERVO_MAX_NUM \<le> uint (servo_count s)" by simp
  show "TCNT1 (snd (SERVO_Init prt pn s)) = (if servo_count s = 0 then 0 else TCNT1 s)"
    by (simp add: SERVO_Init_def nz Let_def hw_defs)
  show "compb_callback (snd (SERVO_Init prt pn s)) = (servo_count s = 0 \<or> compb_callback s)"
    by (simp add: SERVO_Init_def nz Let_def hw_defs)
  show "OCR1B (snd (SERVO_Init prt pn s)) = OCR1B s"
    by (simp add: SERVO_Init_def nz Let_def hw_defs)
  show "servo_id (snd (SERVO_Init prt pn s)) = servo_id s"
    by (simp add: SERVO_Init_def nz Let_def hw_defs)
  show "fst (SERVO_Init prt pn s) = servo_count s"
    by (simp add: SERVO_Init_def nz Let_def hw_defs)
qed

text \<open>
  Claim C5. A call of \<^verbatim>\<open>SERVO_Init\<close> below capacity returns the old count as the id,
  increments the count, appends a channel with \<open>ticks = 0\<close> to the registry (so the new
  channel sits at the index of the old count), and sets the pin to output and then low.
  When the count was 0 it first installs the compare-B callback and resets the counter
  to 0; otherwise the callback flag and the counter are left as they were and no timer
  call is made.
\<close>

theorem SERVO_Init_success:
  assumes "wf_state s" and "uint (servo_count s) < SERVO_MAX_NUM"
  shows "fst (SERVO_Init prt pn s) = servo_count s \<and>
         servo_count (snd (SERVO_Init prt pn s)) = servo_count s + 1 \<and>
         registry (snd (SERVO_Init prt pn s))
           = registry s @ [\<lparr>port = ucast prt, pin = ucast pn, ticks = 0\<rparr>] \<and>
         hw_trace (snd (SERVO_Init prt pn s))
           = hw_trace s @ (if servo_count s = 0 then [CallbackCOMPB, TimerValue 0] else [])
               @ [PinDirection prt pn OUTPUT, PinValue prt pn LOW] \<and>
         TCNT1 (snd (SERVO_Init prt pn s)) = (if servo_count s = 0 then 0 else TCNT1 s) \<and>
         compb_callback (snd (SERVO_Init prt pn s)) = (servo_count s = 0 \<or> compb_callback s) \<and>
         OCR1B (snd (SERVO_Init prt pn s)) = OCR1B s \<and>
         servo_id (snd (SERVO_Init prt pn s)) = servo_id s"
  using assms
  by (simp only: SERVO_Init_registry SERVO_Init_trace SERVO_Init_timer SERVO_Init_count
      simp_thms)

theorem SERVO_Init_success_witness:
  "fst (SERVO_Init 1 5 (init_state 7 0)) = 0 \<and>
   servo_count (snd (SERVO_Init 1 5 (init_state 7 0))) = 1 \<and>
   registry (snd (SERVO_Init 1 5 (init_state 7 0))) = [\<lparr>port = 1, pin = 5, ticks = 0\<rparr>] \<and>
   hw_trace (snd (SERVO_Init 1 5 (init_state 7 0)))
     = [CallbackCOMPB, TimerValue 0, PinDirection 1 5 OUTPUT, PinValue 1 5 LOW] \<and>
   TCNT1 (snd (SERVO_Init 1 5 (init_state 7 0))) = 0 \<and>
   compb_callback (snd (SERVO_Init 1 5 (init_state 7 0))) \<and>
   hw_trace (snd (SERVO_Init 2 6 (snd (SERVO_Init 1 5 (init_state 7 0)))))
     = [CallbackCOMPB, TimerValue 0, PinDirection 1 5 OUTPUT, PinValue 1 5 LOW,
        PinDirection 2 6 OUTPUT, PinValue 2 6 LOW]"
proof -
  let ?s0 = "init_state 7 0"
  let ?s1 = "snd (SERVO_Init 1 5 ?s0)"
  have wf0: "wf_state ?s0" by (rule wf_init_state)
  have lt0: "uint (servo_count ?s0) < SERVO_MAX_NUM"
    by (simp add: init_state_def SERVO_MAX_NUM_def)
  have c0: "servo_count ?s0 = 0" "registry ?s0 = []" "hw_trace ?s0 = []"
    by (simp_all add: init_state_def registry_def)
  note first = SERVO_Init_success [OF wf0 lt0, of 1 5]
  have wf1: "wf_state ?s1" using wf0 by (rule wf_SERVO_Init)
  have c1: "servo_count ?s1 = 1" using first c0 by simp
  have lt1: "uint (servo_count ?s1) < SERVO_MAX_NUM"
    by (simp add: c1 SERVO_MAX_NUM_def)
  note second = SERVO_Init_success [OF wf1 lt1, of 2 6]
  show ?thesis
    using first second c0 c1 by simp
qed

subsection \<open>Setting an angle by id\<close>

text \<open>
  Claim C6. \<^verbatim>\<open>SERVO_SetAngleByID\<close> returns nothing and reports nothing. When the angle
  exceeds 180 or the id is not below the count, the state after the call is the state
  before it. Otherwise the only change is the field \<open>ticks\<close> of the channel with that id.
\<close>

theorem SERVO_SetAngleByID_guard:
  "(\<not> (uint angle \<le> SERVO_MAX_ANGLE \<and> sid < servo_count s) \<longrightarrow>
      SERVO_SetAngleByID cfg sid angle s = s) \<and>
   (uint angle \<le> SERVO_MAX_ANGLE \<and> sid < servo_count s \<longrightarrow>
      SERVO_SetAngleByID cfg sid angle s
        = s\<lparr>servos := (servos s)[unat sid :=
              (servo_at s sid)\<lparr>ticks := ucast (AngleToTicks cfg angle)\<rparr>]\<rparr>)"
  by (simp add: SERVO_SetAngleByID_def SERVO_MIN_ANGLE_def servo_at_def)

lemma one_servo_fields:
  "servo_count one_servo = 1"
  "servo_id one_servo = 0xFF"
  "servos one_servo = \<lparr>port = 1, pin = 5, ticks = 0\<rparr>
                         # replicate 8 \<lparr>port = 0, pin = 0, ticks = 0\<rparr>"
  "hw_trace one_servo
     = [CallbackCOMPB, TimerValue 0, PinDirection 1 5 OUTPUT, PinValue 1 5 LOW]"
  "TCNT1 one_servo = 0"
proof -
  have "(9 :: nat) = Suc 8" by simp
  then have rep: "replicate 9 z = z # replicate 8 z" for z :: Servo
    by (simp only: replicate_Suc)
  show "servo_count one_servo = 1" "servo_id one_servo = 0xFF"
    "hw_trace one_servo
       = [CallbackCOMPB, TimerValue 0, PinDirection 1 5 OUTPUT, PinValue 1 5 LOW]"
    "TCNT1 one_servo = 0"
    by (simp_all add: one_servo_def SERVO_Init_def init_state_def SERVO_MAX_NUM_def
        Let_def hw_defs)
  show "servos one_servo = \<lparr>port = 1, pin = 5, ticks = 0\<rparr>
                         # replicate 8 \<lparr>port = 0, pin = 0, ticks = 0\<rparr>"
    by (simp add: one_servo_def SERVO_Init_def init_state_def SERVO_MAX_NUM_def
        Let_def hw_defs rep)
qed

lemma wf_one_servo: "wf_state one_servo"
  unfolding one_servo_def by (rule wf_SERVO_Init) (rule wf_init_state)

theorem SERVO_SetAngleByID_guard_witness:
  "SERVO_SetAngleByID sample_config 0 181 one_servo = one_servo \<and>
   SERVO_SetAngleByID sample_config 1 90 one_servo = one_servo \<and>
   registry (SERVO_SetAngleByID sample_config 0 90 one_servo)
     = [\<lparr>port = 1, pin = 5, ticks = ucast (AngleToTicks sample_config 90)\<rparr>]"
proof -
  have "\<not> (uint (181 :: uint8) \<le> SERVO_MAX_ANGLE \<and> (0 :: uint8) < servo_count one_servo)"
    by (simp add: SERVO_MAX_ANGLE_def)
  then have a: "SERVO_SetAngleByID sample_config 0 181 one_servo = one_servo"
    using SERVO_SetAngleByID_guard [of 181 0 one_servo sample_config] by blast
  have "\<not> (uint (90 :: uint8) \<le> SERVO_MAX_ANGLE \<and> (1 :: uint8) < servo_count one_servo)"
    by (simp add: one_servo_fields)
  then have b: "SERVO_SetAngleByID sample_config 1 90 one_servo = one_servo"
    using SERVO_SetAngleByID_guard [of 90 1 one_servo sample_config] by blast
  have "uint (90 :: uint8) \<le> SERVO_MAX_ANGLE \<and> (0 :: uint8) < servo_count one_servo"
    by (simp add: one_servo_fields SERVO_MAX_ANGLE_def)
  then have "SERVO_SetAngleByID sample_config 0 90 one_servo
      = one_servo\<lparr>servos := (servos one_servo)[unat (0 :: uint8) :=
            (servo_at one_servo 0)\<lparr>ticks := ucast (AngleToTicks sample_config 90)\<rparr>]\<rparr>"
    using SERVO_SetAngleByID_guard [of 90 0 one_servo sample_config] by blast
  then have "registry (SERVO_SetAngleByID sample_config 0 90 one_servo)
      = [\<lparr>port = 1, pin = 5, ticks = ucast (AngleToTicks sample_config 90)\<rparr>]"
    by (simp add: registry_def one_servo_fields servo_at_def)
  with a b show ?thesis by simp
qed

subsection \<open>The compare-match handler\<close>

lemma end_pulse_fields:
  "servos (SERVO_Interrupt_end_pulse s) = servos s"
  "servo_count (SERVO_Interrupt_end_pulse s) = servo_count s"
  "OCR1B (SERVO_Interrupt_end_pulse s) = OCR1B s"
  "compb_callback (SERVO_Interrupt_end_pulse s) = compb_callback s"
  by (simp_all add: SERVO_Interrupt_end_pulse_def hw_defs)

lemma next_pulse_fields:
  "servos (SERVO_Interrupt_next_pulse cfg s) = servos s"
  "servo_count (SERVO_Interrupt_next_pulse cfg s) = servo_count s"
  "servo_id (SERVO_Interrupt_next_pulse cfg s) = servo_id s"
  "TCNT1 (SERVO_Interrupt_next_pulse cfg s) = TCNT1 s"
  "compb_callback (SERVO_Interrupt_next_pulse cfg s) = compb_callback s"
  by (simp_all add: SERVO_Interrupt_next_pulse_def hw_defs)

lemma next_pulse_trace:
  "\<exists>rest. hw_trace (SERVO_Interrupt_next_pulse cfg s) = hw_trace s @ rest"
  by (simp add: SERVO_Interrupt_next_pulse_def hw_defs)

text \<open>
  Claim C1. When the cursor \<open>servo_id\<close> is below the count, the first call the handler
  makes sets the pin of the channel under the cursor low, and the cursor is one higher
  when the handler returns. Otherwise the first call resets the counter to 0, and on
  return the counter reads 0 and the cursor is 0. The cursor starts at \<open>0xFF\<close>, which is
  never below the count, so the first invocation takes the second branch.
\<close>

theorem SERVO_Interrupt_cursor:
  "(servo_id s < servo_count s \<longrightarrow>
      (\<exists>rest. hw_trace (SERVO_Interrupt cfg s)
         = hw_trace s @ PinValue (ucast (port (servo_at s (servo_id s))))
                                 (ucast (pin (servo_at s (servo_id s)))) LOW # rest) \<and>
      servo_id (SERVO_Interrupt cfg s) = servo_id s + 1) \<and>
   (\<not> servo_id s < servo_count s \<longrightarrow>
      (\<exists>rest. hw_trace (SERVO_Interrupt cfg s) = hw_trace s @ TimerValue 0 # rest) \<and>
      TCNT1 (SERVO_Interrupt cfg s) = 0 \<and>
      servo_id (SERVO_Interrupt cfg s) = 0) \<and>
   servo_id (init_state tcnt ocr) = 0xFF \<and>
   (servo_id s = 0xFF \<longrightarrow> \<not> servo_id s < servo_count s)"
proof (intro conjI impI)
  assume lt: "servo_id s < servo_count s"
  obtain rest where "hw_trace (SERVO_Interrupt_next_pulse cfg (SERVO_Interrupt_end_pulse s))
      = hw_trace (SERVO_Interrupt_end_pulse s) @ rest"
    using next_pulse_trace by blast
  with lt show "\<exists>rest. hw_trace (SERVO_Interrupt cfg s)
         = hw_trace s @ PinValue (ucast (port (servo_at s (servo_id s))))
                                 (ucast (pin (servo_at s (servo_id s)))) LOW # rest"
    by (simp add: SERVO_Interrupt_def SERVO_Interrupt_end_pulse_def hw_defs)
  from lt show "servo_id (SERVO_Interrupt cfg s) = servo_id s + 1"
    by (simp add: SERVO_Interrupt_def next_pulse_fields SERVO_Interrupt_end_pulse_def hw_defs)
next
  assume ge: "\<not> servo_id s < servo_count s"
  obtain rest where "hw_trace (SERVO_Interrupt_next_pulse cfg (SERVO_Interrupt_end_pulse s))
      = hw_trace (SERVO_Interrupt_end_pulse s) @ rest"
    using next_pulse_trace by blast
  with ge show "\<exists>rest. hw_trace (SERVO_Interrupt cfg s) = hw_trace s @ TimerValue 0 # rest"
    by (simp add: SERVO_Interrupt_def SERVO_Interrupt_end_pulse_def hw_defs)
  from ge show "TCNT1 (SERVO_Interrupt cfg s) = 0"
    by (simp add: SERVO_Interrupt_def next_pulse_fields SERVO_Interrupt_end_pulse_def hw_defs)
  from ge show "servo_id (SERVO_Interrupt cfg s) = 0"
    by (simp add: SERVO_Interrupt_def next_pulse_fields SERVO_Interrupt_end_pulse_def hw_defs)
next
  show "servo_id (init_state tcnt ocr) = 0xFF"
    by (simp add: init_state_def)
next
  assume top: "servo_id s = 0xFF"
  have "unat (servo_count s) < 256"
    using unsigned_less [of "servo_count s", where 'a = nat] by simp
  with top show "\<not> servo_id s < servo_count s"
    by (simp add: word_less_nat_alt)
qed


theorem SERVO_Interrupt_cursor_witness:
  "servo_id (SERVO_Interrupt sample_config one_servo) = 0 \<and>
   TCNT1 (SERVO_Interrupt sample_config one_servo) = 0 \<and>
   (\<exists>rest. hw_trace (SERVO_Interrupt sample_config one_servo)
      = hw_trace one_servo @ TimerValue 0 # rest) \<and>
   servo_id (SERVO_Interrupt sample_config (SERVO_Interrupt sample_config one_servo)) = 1 \<and>
   (\<exists>rest. hw_trace (SERVO_Interrupt sample_config (SERVO_Interrupt sample_config one_servo))
      = hw_trace (SERVO_Interrupt sample_config one_servo) @ PinValue 1 5 LOW # rest)"
proof -
  let ?s1 = "SERVO_Interrupt sample_config one_servo"
  have top: "servo_id one_servo = 0xFF" by (rule one_servo_fields)
  note first = SERVO_Interrupt_cursor [of one_servo sample_config 0 0]
  from first top have ge: "\<not> servo_id one_servo < servo_count one_servo" by blast
  with first have r1: "servo_id ?s1 = 0" "TCNT1 ?s1 = 0"
    "\<exists>rest. hw_trace ?s1 = hw_trace one_servo @ TimerValue 0 # rest"
    by blast+
  have f1: "servo_count ?s1 = 1" "servos ?s1 = servos one_servo"
    by (simp_all add: SERVO_Interrupt_def next_pulse_fields end_pulse_fields one_servo_fields)
  have lt: "servo_id ?s1 < servo_count ?s1" by (simp add: r1 f1)
  note second = SERVO_Interrupt_cursor [of ?s1 sample_config 0 0]
  from second lt have r2:
    "servo_id (SERVO_Interrupt sample_config ?s1) = servo_id ?s1 + 1"
    "\<exists>rest. hw_trace (SERVO_Interrupt sample_config ?s1)
         = hw_trace ?s1 @ PinValue (ucast (port (servo_at ?s1 (servo_id ?s1))))
                                 (ucast (pin (servo_at ?s1 (servo_id ?s1)))) LOW # rest"
    by blast+
  from r2 r1 show ?thesis
    by (simp add: f1 servo_at_def one_servo_fields)
qed

text \<open>
  The end of a frame. When the cursor is past the last registered channel after the first
  half of the handler, the handler's last call writes the compare register: the frame
  boundary \<open>SERVO_PWM_INTERVAL_TICKS\<close> when the 16-bit sum of the tick just read and 50 is
  below the frame boundary, and the 16-bit sum of the tick and 20 otherwise. The tick read
  is the counter on entry, or 0 when the first half has reset it. The 16-bit sums are the
  sums of natural numbers only while those stay below \<open>2 ^ 16\<close>.
\<close>

lemma frame_end_compare:
  assumes "\<not> servo_id (SERVO_Interrupt cfg s) < servo_count s"
  shows "OCR1B (SERVO_Interrupt cfg s)
           = (if (ucast (TCNT1 (SERVO_Interrupt cfg s) + 50) :: uint32)
                   < SERVO_PWM_INTERVAL_TICKS cfg
              then ucast (SERVO_PWM_INTERVAL_TICKS cfg)
              else TCNT1 (SERVO_Interrupt cfg s) + 20) \<and>
         last (hw_trace (SERVO_Interrupt cfg s)) = CompareB (OCR1B (SERVO_Interrupt cfg s)) \<and>
         TCNT1 (SERVO_Interrupt cfg s) = (if servo_id s < servo_count s then TCNT1 s else 0) \<and>
         (unat (TCNT1 (SERVO_Interrupt cfg s)) + 50 < 2 ^ 16 \<longrightarrow>
            ((ucast (TCNT1 (SERVO_Interrupt cfg s) + 50) :: uint32) < SERVO_PWM_INTERVAL_TICKS cfg)
              = (unat (TCNT1 (SERVO_Interrupt cfg s)) + 50 < unat (SERVO_PWM_INTERVAL_TICKS cfg))) \<and>
         (unat (TCNT1 (SERVO_Interrupt cfg s)) + 20 < 2 ^ 16 \<longrightarrow>
            unat (TCNT1 (SERVO_Interrupt cfg s) + 20) = unat (TCNT1 (SERVO_Interrupt cfg s)) + 20) \<and>
         (unat (SERVO_PWM_INTERVAL_TICKS cfg) < 2 ^ 16 \<longrightarrow>
            unat (ucast (SERVO_PWM_INTERVAL_TICKS cfg) :: uint16)
              = unat (SERVO_PWM_INTERVAL_TICKS cfg))"
proof -
  let ?s1 = "SERVO_Interrupt_end_pulse s"
  from assms have past: "\<not> servo_id ?s1 < servo_count ?s1"
    by (simp add: SERVO_Interrupt_def next_pulse_fields end_pulse_fields)
  have t: "TCNT1 (SERVO_Interrupt cfg s) = TCNT1 ?s1"
    by (simp add: SERVO_Interrupt_def next_pulse_fields)
  have a: "OCR1B (SERVO_Interrupt cfg s)
           = (if (ucast (TCNT1 ?s1 + 50) :: uint32) < SERVO_PWM_INTERVAL_TICKS cfg
              then ucast (SERVO_PWM_INTERVAL_TICKS cfg) else TCNT1 ?s1 + 20)"
    using past by (simp add: SERVO_Interrupt_def SERVO_Interrupt_next_pulse_def hw_defs)
  have b: "last (hw_trace (SERVO_Interrupt cfg s)) = CompareB (OCR1B (SERVO_Interrupt cfg s))"
    using past by (simp add: SERVO_Interrupt_def SERVO_Interrupt_next_pulse_def hw_defs)
  have c: "TCNT1 ?s1 = (if servo_id s < servo_count s then TCNT1 s else 0)"
    by (simp add: SERVO_Interrupt_end_pulse_def hw_defs)
  have d: "((ucast (w + 50) :: uint32) < v) = (unat w + 50 < unat v)"
    if "unat w + 50 < 2 ^ 16" for w :: uint16 and v :: uint32
  proof -
    have "unat (w + 50) = unat w + 50"
      using that by (simp add: unat_word_ariths)
    moreover have "unat (w + 50) < 2 ^ 32"
      using unsigned_less [of "w + 50", where 'a = nat] by simp
    ultimately show ?thesis
      by (simp add: word_less_nat_alt unsigned_ucast_eq take_bit_nat_eq_self)
  qed
  have e: "unat (w + 20) = unat w + 20" if "unat w + 20 < 2 ^ 16" for w :: uint16
    using that by (simp add: unat_word_ariths)
  have f: "unat (ucast v :: uint16) = unat v" if "unat v < 2 ^ 16" for v :: uint32
    using that by (simp add: unsigned_ucast_eq take_bit_nat_eq_self)
  show ?thesis
    using a b c d e f by (simp only: t) blast
qed


lemma sample_interval: "SERVO_PWM_INTERVAL_TICKS sample_config = 20000"
  by (simp add: SERVO_PWM_INTERVAL_TICKS_def SERVO_US_TO_TICKS_def sample_config_def
      SERVO_PWM_INTERVAL_US_def)

lemma frame_end_compare_sample:
  "OCR1B (SERVO_Interrupt sample_config (one_servo\<lparr>servo_id := 0, TCNT1 := 1500\<rparr>)) = 20000 \<and>
   OCR1B (SERVO_Interrupt sample_config (one_servo\<lparr>servo_id := 0, TCNT1 := 19990\<rparr>)) = 20010 \<and>
   last (hw_trace (SERVO_Interrupt sample_config (one_servo\<lparr>servo_id := 0, TCNT1 := 19990\<rparr>)))
     = CompareB 20010"
proof -
  let ?a = "one_servo\<lparr>servo_id := 0, TCNT1 := 1500\<rparr>"
  let ?b = "one_servo\<lparr>servo_id := 0, TCNT1 := 19990\<rparr>"
  have ida: "servo_id (SERVO_Interrupt sample_config ?a) = 1"
    and idb: "servo_id (SERVO_Interrupt sample_config ?b) = 1"
    by (simp_all add: SERVO_Interrupt_def next_pulse_fields SERVO_Interrupt_end_pulse_def
        hw_defs one_servo_fields)
  have pa: "\<not> servo_id (SERVO_Interrupt sample_config ?a) < servo_count ?a"
    by (simp add: ida one_servo_fields)
  have pb: "\<not> servo_id (SERVO_Interrupt sample_config ?b) < servo_count ?b"
    by (simp add: idb one_servo_fields)
  have ta: "TCNT1 (SERVO_Interrupt sample_config ?a) = 1500"
    using frame_end_compare [OF pa] by (simp add: one_servo_fields)
  have tb: "TCNT1 (SERVO_Interrupt sample_config ?b) = 19990"
    using frame_end_compare [OF pb] by (simp add: one_servo_fields)
  have "OCR1B (SERVO_Interrupt sample_config ?a) = 20000"
    using frame_end_compare [OF pa] by (simp add: ta sample_interval)
  moreover have "OCR1B (SERVO_Interrupt sample_config ?b) = 20010"
    using frame_end_compare [OF pb] by (simp add: tb sample_interval)
  moreover have "last (hw_trace (SERVO_Interrupt sample_config ?b))
      = CompareB (OCR1B (SERVO_Interrupt sample_config ?b))"
    using frame_end_compare [OF pb] by blast
  ultimately show ?thesis by simp
qed

subsection \<open>The rounding function\<close>

lemma pow2_pos: "0 < pow2 e"
  by (simp add: pow2_def)

lemma pow2_Suc: "pow2 (e + 1) = 2 * pow2 e"
proof (cases "0 \<le> e")
  case True
  then show ?thesis by (simp add: pow2_def nat_add_distrib)
next
  case False
  then have "nat (- e) = Suc (nat (- (e + 1)))" by simp
  then have "(2 :: real) ^ nat (- e) = 2 * 2 ^ nat (- (e + 1))" by simp
  with False show ?thesis by (auto simp: pow2_def)
qed

lemma ilog2_bounds:
  assumes "0 < x"
  shows "pow2 (ilog2 x) \<le> x" and "x < pow2 (ilog2 x + 1)"
proof -
  have "pow2 (ilog2 x) \<le> x \<and> x < pow2 (ilog2 x + 1)"
  proof (cases "1 \<le> x")
    case True
    let ?n = "\<lfloor>x\<rfloor>"
    from True have n: "0 < ?n" by simp
    from bitlen_bounds [OF n]
    have lo: "2 ^ nat (bitlen ?n - 1) \<le> ?n" and hi: "?n < 2 ^ nat (bitlen ?n)" by simp_all
    from n have b: "1 \<le> bitlen ?n"
      using bitlen_eq_zero_iff [of ?n] bitlen_nonneg [of ?n] by linarith
    have "real_of_int (2 ^ nat (bitlen ?n - 1)) \<le> real_of_int ?n"
      using lo by (simp only: of_int_le_iff)
    also have "\<dots> \<le> x" by simp
    finally have 1: "pow2 (bitlen ?n - 1) \<le> x"
      using b by (simp add: pow2_def)
    from hi have "?n + 1 \<le> 2 ^ nat (bitlen ?n)" by simp
    then have "real_of_int (?n + 1) \<le> real_of_int (2 ^ nat (bitlen ?n))"
      by (simp only: of_int_le_iff)
    then have "real_of_int ?n + 1 \<le> 2 ^ nat (bitlen ?n)" by simp
    moreover have "x < real_of_int ?n + 1" by linarith
    ultimately have "x < 2 ^ nat (bitlen ?n)" by linarith
    then have 2: "x < pow2 (bitlen ?n)"
      using b by (simp add: pow2_def)
    from True 1 2 show ?thesis by (simp add: ilog2_def)
  next
    case False
    let ?y = "1 / x"
    let ?m = "\<lceil>?y\<rceil> - 1"
    from False assms have y: "1 < ?y" by simp
    then have m: "0 < ?m" by linarith
    from bitlen_bounds [OF m]
    have lo: "2 ^ nat (bitlen ?m - 1) \<le> ?m" and hi: "?m < 2 ^ nat (bitlen ?m)" by simp_all
    from m have b: "1 \<le> bitlen ?m"
      using bitlen_eq_zero_iff [of ?m] bitlen_nonneg [of ?m] by linarith
    from hi have "\<lceil>?y\<rceil> \<le> 2 ^ nat (bitlen ?m)" by simp
    then have c: "real_of_int \<lceil>?y\<rceil> \<le> real_of_int (2 ^ nat (bitlen ?m))"
      by (simp only: of_int_le_iff)
    have "?y \<le> real_of_int \<lceil>?y\<rceil>" by (rule le_of_int_ceiling)
    also note c
    also have "real_of_int (2 ^ nat (bitlen ?m)) = 2 ^ nat (bitlen ?m)" by simp
    finally have "?y \<le> 2 ^ nat (bitlen ?m)" .
    then have "1 / 2 ^ nat (bitlen ?m) \<le> x"
      using assms by (simp add: field_simps)
    then have 1: "pow2 (- bitlen ?m) \<le> x"
      using b by (simp add: pow2_def)
    have "(2 :: real) ^ nat (bitlen ?m - 1) = real_of_int (2 ^ nat (bitlen ?m - 1))" by simp
    also have "\<dots> \<le> real_of_int ?m"
      using lo by (simp only: of_int_le_iff)
    also have "\<dots> < ?y" by linarith
    finally have "2 ^ nat (bitlen ?m - 1) < ?y" .
    then have "x < 1 / 2 ^ nat (bitlen ?m - 1)"
      using assms by (simp add: field_simps)
    then have 2: "x < pow2 (- bitlen ?m + 1)"
      using b by (cases "bitlen ?m = 1") (auto simp: pow2_def)
    from False 1 2 show ?thesis by (simp add: ilog2_def)
  qed
  then show "pow2 (ilog2 x) \<le> x" and "x < pow2 (ilog2 x + 1)" by simp_all
qed

lemma round_half_even_error: "\<bar>real_of_int (round_half_even x) - x\<bar> \<le> 1 / 2"
  unfolding round_half_even_def Let_def by (auto simp: abs_if) linarith+

lemma round_half_even_tie:
  "round_half_even (real_of_int k + 1 / 2) = (if even k then k else k + 1)"
proof -
  have "\<lfloor>real_of_int k + 1 / 2\<rfloor> = k" by linarith
  then show ?thesis by (simp add: round_half_even_def)
qed

lemma pow2_powi: "pow2 e = 2 powi e"
  by (simp add: pow2_def power_int_def inverse_eq_divide power_one_over)

lemma pow2_add: "pow2 (a + b) = pow2 a * pow2 b"
  by (simp add: pow2_powi power_int_add)

lemma pow2_nat: "pow2 (int n) = 2 ^ n"
  by (simp add: pow2_def)

text \<open>
  \<open>fl p x\<close> is a multiple of the unit in the last place of \<open>x\<close>, at most half a unit
  away from \<open>x\<close>, with a mantissa of \<open>p\<close> bits (or the next power of two, when rounding
  carries); \<open>round_half_even_tie\<close> above settles the half-way case.
\<close>

lemma fl_error:
  assumes "x \<noteq> 0"
  shows "\<bar>fl p x - x\<bar> \<le> pow2 (ilog2 \<bar>x\<bar> + 1 - int p) / 2"
proof -
  let ?u = "pow2 (ilog2 \<bar>x\<bar> + 1 - int p)"
  let ?v = "\<bar>x\<bar> / ?u"
  let ?r = "real_of_int (round_half_even ?v)"
  have u: "0 < ?u" by (rule pow2_pos)
  then have vu: "?v * ?u = \<bar>x\<bar>" by simp
  have "fl p x = sgn x * (?r * ?u)"
    using assms by (simp add: fl_def Let_def)
  moreover have "x = sgn x * (?v * ?u)"
    by (simp only: vu mult_sgn_abs)
  ultimately have "fl p x - x = sgn x * ((?r - ?v) * ?u)"
    by (simp only: left_diff_distrib right_diff_distrib)
  then have "\<bar>fl p x - x\<bar> = \<bar>?r - ?v\<bar> * ?u"
    using assms u by (simp only: abs_mult abs_sgn_eq abs_of_pos [OF u]) simp
  also have "\<dots> \<le> 1 / 2 * ?u"
    using u round_half_even_error [of ?v] by (intro mult_right_mono) simp_all
  finally show ?thesis by simp
qed

lemma fl_mantissa:
  assumes "x \<noteq> 0" and "0 < p"
  shows "2 ^ (p - 1) \<le> round_half_even (\<bar>x\<bar> / pow2 (ilog2 \<bar>x\<bar> + 1 - int p))"
    and "round_half_even (\<bar>x\<bar> / pow2 (ilog2 \<bar>x\<bar> + 1 - int p)) \<le> 2 ^ p"
proof -
  let ?l = "ilog2 \<bar>x\<bar>"
  let ?u = "pow2 (?l + 1 - int p)"
  let ?v = "\<bar>x\<bar> / ?u"
  let ?r = "round_half_even ?v"
  have u: "0 < ?u" by (rule pow2_pos)
  from assms(1) have x: "0 < \<bar>x\<bar>" by simp
  have "pow2 ?l = pow2 (int (p - 1)) * ?u"
    using assms(2) by (simp add: pow2_add [symmetric] of_nat_diff)
  with ilog2_bounds(1) [OF x] have "2 ^ (p - 1) * ?u \<le> \<bar>x\<bar>"
    by (simp add: pow2_nat)
  then have lo: "2 ^ (p - 1) \<le> ?v"
    using u by (simp add: pos_le_divide_eq)
  have "pow2 (?l + 1) = pow2 (int p) * ?u"
    by (simp add: pow2_add [symmetric])
  with ilog2_bounds(2) [OF x] have "\<bar>x\<bar> < 2 ^ p * ?u"
    by (simp add: pow2_nat)
  then have hi: "?v < 2 ^ p"
    using u by (simp add: pos_divide_less_eq)
  have e: "\<bar>real_of_int ?r - ?v\<bar> \<le> 1 / 2" by (rule round_half_even_error)
  from e have e1: "?v - 1 / 2 \<le> real_of_int ?r" and e2: "real_of_int ?r \<le> ?v + 1 / 2"
    unfolding abs_le_iff by linarith+
  have "real_of_int (2 ^ (p - 1)) = 2 ^ (p - 1)" by simp
  with lo e1 have "real_of_int (2 ^ (p - 1)) < real_of_int ?r + 1" by linarith
  also have "real_of_int ?r + 1 = real_of_int (?r + 1)" by simp
  finally have "(2 :: int) ^ (p - 1) < ?r + 1"
    by (simp only: of_int_less_iff)
  then show "2 ^ (p - 1) \<le> ?r" by simp
  have "real_of_int (2 ^ p) = 2 ^ p" by simp
  with hi e2 have "real_of_int ?r < real_of_int (2 ^ p) + 1" by linarith
  also have "real_of_int (2 ^ p) + 1 = real_of_int (2 ^ p + 1)" by simp
  finally have "?r < 2 ^ p + 1"
    by (simp only: of_int_less_iff)
  then show "?r \<le> 2 ^ p" by simp
qed

subsection \<open>Evaluating the \<^verbatim>\<open>double\<close> expression\<close>

lemma bitlen_numeral_rec: "bitlen (numeral k) = bitlen (numeral k div 2) + 1"
  by (subst compute_bitlen) simp

lemma bitlen_1: "bitlen 1 = 1"
  by (subst compute_bitlen) simp

lemmas double_eval =
  double_of_int_def double_div_def double_mul_def double_add_def
  fl_def ilog2_def round_half_even_def pow2_def Let_def
  bitlen_numeral_rec bitlen_1

lemma all_le_numeral:
  "(\<forall>a\<le>numeral k. P a) = (P (numeral k) \<and> (\<forall>a\<le>pred_numeral k. P a))"
  by (auto simp: numeral_eq_Suc le_Suc_eq)

lemma all_le_1: "(\<forall>a\<le>1. P a) = (P (1 :: nat) \<and> P 0)"
  by (auto simp: le_Suc_eq)

lemma all_le_0: "(\<forall>a\<le>0. P a) = P (0 :: nat)"
  by simp

lemmas all_le_unfold =
  all_le_numeral all_le_1 all_le_0 pred_numeral_simps BitM.simps numeral_One

lemma microseconds_double_24:
  "\<forall>a\<le>180. \<lfloor>microseconds_double 24 (int a)\<rfloor> = 1000 + 50 * int a div 9"
  apply (simp only: all_le_unfold)
  apply (simp add: microseconds_double_def SERVO_MIN_PULSE_US_def double_eval)
  done

lemma microseconds_double_53:
  "\<forall>a\<le>180. \<lfloor>microseconds_double 53 (int a)\<rfloor> = 1000 + 50 * int a div 9"
  apply (simp only: all_le_unfold)
  apply (simp add: microseconds_double_def SERVO_MIN_PULSE_US_def double_eval)
  done

subsection \<open>From degrees to ticks\<close>

lemma unat_angle_le:
  assumes "uint (angle :: uint8) \<le> SERVO_MAX_ANGLE"
  shows "unat angle \<le> 180"
proof -
  have "int (unat angle) \<le> 180"
    using assms by (simp only: uint_nat SERVO_MAX_ANGLE_def)
  then show ?thesis by linarith
qed

lemma floor_microseconds_double:
  assumes "config_ok cfg" and "uint (angle :: uint8) \<le> SERVO_MAX_ANGLE"
  shows "\<lfloor>microseconds_double (DBL_MANT_DIG cfg) (uint angle)\<rfloor>
           = 1000 + 50 * int (unat angle) div 9"
proof -
  have a: "unat angle \<le> 180" using assms(2) by (rule unat_angle_le)
  have u: "uint angle = int (unat angle)" by (rule uint_nat)
  from assms(1) have "DBL_MANT_DIG cfg = 24 \<or> DBL_MANT_DIG cfg = 53"
    by (simp add: config_ok_def)
  then show ?thesis
  proof
    assume "DBL_MANT_DIG cfg = 24"
    with microseconds_double_24 a show ?thesis by (simp only: u)
  next
    assume "DBL_MANT_DIG cfg = 53"
    with microseconds_double_53 a show ?thesis by (simp only: u)
  qed
qed

lemma microseconds_exact:
  assumes "config_ok cfg" and "uint (angle :: uint8) \<le> SERVO_MAX_ANGLE"
  shows "microseconds cfg angle = word_of_nat (1000 + 50 * unat angle div 9)"
proof -
  let ?x = "microseconds_double (DBL_MANT_DIG cfg) (uint angle)"
  have fl: "\<lfloor>?x\<rfloor> = 1000 + 50 * int (unat angle) div 9"
    using assms by (rule floor_microseconds_double)
  have "(0 :: int) \<le> 1000 + 50 * int (unat angle) div 9"
    by (simp add: pos_imp_zdiv_nonneg_iff)
  then have "0 \<le> \<lfloor>?x\<rfloor>" by (simp only: fl)
  then have pos: "0 \<le> ?x" by simp
  have "1000 + 50 * int (unat angle) div 9 = int (1000 + 50 * unat angle div 9)"
    by (simp add: zdiv_int)
  with fl pos show ?thesis
    by (simp add: microseconds_def uint16_of_double_def)
qed

lemma unat_microseconds:
  assumes "config_ok cfg" and "uint (angle :: uint8) \<le> SERVO_MAX_ANGLE"
  shows "unat (microseconds cfg angle) = 1000 + 50 * unat angle div 9"
proof -
  have "unat angle \<le> 180" using assms(2) by (rule unat_angle_le)
  then have "1000 + 50 * unat angle div 9 < 2 ^ LENGTH(16)" by simp
  then have "unat (word_of_nat (1000 + 50 * unat angle div 9) :: uint16)
               = 1000 + 50 * unat angle div 9"
    by (simp only: unat_of_nat mod_less)
  then show ?thesis
    by (simp only: microseconds_exact [OF assms])
qed

lemma unat_US_TO_TICKS:
  assumes "unat us \<le> 1000000"
  shows "unat (SERVO_US_TO_TICKS cfg us)
           = unat us * (unat (F_CPU cfg) div 1000000) div unat (TIMER1_PRESCALER cfg)"
proof -
  have "unat (F_CPU cfg) < 2 ^ 32"
    using unsigned_less [of "F_CPU cfg", where 'a = nat] by simp
  then have m: "unat (F_CPU cfg) div 1000000 \<le> 4294" by simp
  have d: "unat (F_CPU cfg div 1000000) = unat (F_CPU cfg) div 1000000"
    by (simp add: unat_div)
  have "unat us * (unat (F_CPU cfg) div 1000000) \<le> 1000000 * 4294"
    using assms m by (rule mult_le_mono)
  then have "unat us * unat (F_CPU cfg div 1000000) < 2 ^ LENGTH(32)"
    by (simp add: d)
  then have "unat (us * (F_CPU cfg div 1000000)) = unat us * unat (F_CPU cfg div 1000000)"
    by (simp only: unat_mult_lem)
  then show ?thesis
    by (simp add: SERVO_US_TO_TICKS_def unat_div d)
qed

lemma unat_AngleToTicks:
  assumes "config_ok cfg" and "uint (angle :: uint8) \<le> SERVO_MAX_ANGLE"
  shows "unat (AngleToTicks cfg angle)
           = (1000 + 50 * unat angle div 9) * (unat (F_CPU cfg) div 1000000)
               div unat (TIMER1_PRESCALER cfg)"
proof -
  have "unat angle \<le> 180" using assms(2) by (rule unat_angle_le)
  then have b: "1000 + 50 * unat angle div 9 \<le> 1000000" by simp
  have u: "unat (ucast (microseconds cfg angle) :: uint32) = 1000 + 50 * unat angle div 9"
    using b by (simp add: unsigned_ucast_eq unat_microseconds [OF assms] take_bit_nat_eq_self)
  show ?thesis
    using b by (simp add: AngleToTicks_def unat_US_TO_TICKS u)
qed

lemma AngleToTicks_fits:
  assumes "config_ok cfg" and "uint (angle :: uint8) \<le> SERVO_MAX_ANGLE"
  shows "unat (AngleToTicks cfg angle) < 2 ^ 27"
proof -
  have "unat angle \<le> 180" using assms(2) by (rule unat_angle_le)
  then have b: "1000 + 50 * unat angle div 9 \<le> 2000" by simp
  have "unat (F_CPU cfg) < 2 ^ 32"
    using unsigned_less [of "F_CPU cfg", where 'a = nat] by simp
  then have m: "unat (F_CPU cfg) div 1000000 \<le> 4294" by simp
  have "(1000 + 50 * unat angle div 9) * (unat (F_CPU cfg) div 1000000) \<le> 2000 * 4294"
    using b m by (rule mult_le_mono)
  moreover have "(1000 + 50 * unat angle div 9) * (unat (F_CPU cfg) div 1000000)
                   div unat (TIMER1_PRESCALER cfg)
                 \<le> (1000 + 50 * unat angle div 9) * (unat (F_CPU cfg) div 1000000)"
    by (rule div_le_dividend)
  ultimately have "(1000 + 50 * unat angle div 9) * (unat (F_CPU cfg) div 1000000)
                   div unat (TIMER1_PRESCALER cfg) \<le> 2000 * 4294"
    by linarith
  then show ?thesis
    by (simp add: unat_AngleToTicks [OF assms])
qed

lemma stored_ticks:
  assumes "config_ok cfg" and "uint (angle :: uint8) \<le> SERVO_MAX_ANGLE"
  shows "ucast (ucast (AngleToTicks cfg angle) :: 27 word) = AngleToTicks cfg angle"
proof -
  have "unat (AngleToTicks cfg angle) < 2 ^ 27"
    using assms by (rule AngleToTicks_fits)
  then have "unat (ucast (ucast (AngleToTicks cfg angle) :: 27 word) :: uint32)
               = unat (AngleToTicks cfg angle)"
    by (simp add: unsigned_ucast_eq unsigned_take_bit_eq take_bit_nat_eq_self)
  then show ?thesis by (simp only: word_unat_eq_iff)
qed

lemma SERVO_SetAngleByID_ticks:
  assumes "wf_state s" and "sid < servo_count s" and "uint angle \<le> SERVO_MAX_ANGLE"
  shows "ticks (servo_at (SERVO_SetAngleByID cfg sid angle s) sid)
           = ucast (AngleToTicks cfg angle)"
proof -
  have "unat sid < unat (servo_count s)"
    using assms(2) by (simp add: word_less_nat_alt)
  moreover have "int (unat (servo_count s)) \<le> SERVO_MAX_NUM"
    using assms(1) by (simp only: wf_state_def uint_nat)
  moreover have "length (servos s) = nat SERVO_MAX_NUM"
    using assms(1) by (simp add: wf_state_def)
  ultimately have "unat sid < length (servos s)" by linarith
  then show ?thesis
    using assms(2,3) by (simp add: SERVO_SetAngleByID_def SERVO_MIN_ANGLE_def servo_at_def)
qed

lemma AngleToTicks_0:
  assumes "config_ok cfg"
  shows "AngleToTicks cfg 0 = SERVO_US_TO_TICKS cfg 1000"
proof -
  have "uint (0 :: uint8) \<le> SERVO_MAX_ANGLE" by (simp add: SERVO_MAX_ANGLE_def)
  then have "microseconds cfg 0 = 1000"
    using microseconds_exact [OF assms] by simp
  then show ?thesis by (simp add: AngleToTicks_def)
qed

lemma AngleToTicks_180:
  assumes "config_ok cfg"
  shows "AngleToTicks cfg 180 = SERVO_US_TO_TICKS cfg 2000"
proof -
  have "uint (180 :: uint8) \<le> SERVO_MAX_ANGLE" by (simp add: SERVO_MAX_ANGLE_def)
  then have "microseconds cfg 180 = 2000"
    using microseconds_exact [OF assms, of 180] by simp
  then show ?thesis by (simp add: AngleToTicks_def)
qed

lemma AngleToTicks_le:
  assumes "config_ok cfg" and le: "unat a1 \<le> unat a2" and a2: "uint a2 \<le> SERVO_MAX_ANGLE"
  shows "unat (AngleToTicks cfg a1) \<le> unat (AngleToTicks cfg a2)"
proof -
  have "uint a1 \<le> uint a2"
    using le by (simp only: uint_nat)
  with a2 have a1: "uint a1 \<le> SERVO_MAX_ANGLE" by simp
  from le have "1000 + 50 * unat a1 div 9 \<le> 1000 + 50 * unat a2 div 9"
    by (simp add: div_le_mono)
  then have "(1000 + 50 * unat a1 div 9) * (unat (F_CPU cfg) div 1000000)
               div unat (TIMER1_PRESCALER cfg)
             \<le> (1000 + 50 * unat a2 div 9) * (unat (F_CPU cfg) div 1000000)
               div unat (TIMER1_PRESCALER cfg)"
    by (intro div_le_mono mult_le_mono1)
  then show ?thesis
    by (simp only: unat_AngleToTicks [OF assms(1) a1] unat_AngleToTicks [OF assms(1) a2])
qed

lemma AngleToTicks_bounds:
  assumes "config_ok cfg" and "uint angle \<le> SERVO_MAX_ANGLE"
  shows "SERVO_US_TO_TICKS cfg 1000 \<le> AngleToTicks cfg angle"
    and "AngleToTicks cfg angle \<le> SERVO_US_TO_TICKS cfg 2000"
proof -
  have a: "unat angle \<le> 180" using assms(2) by (rule unat_angle_le)
  have "uint (180 :: uint8) \<le> SERVO_MAX_ANGLE" by (simp add: SERVO_MAX_ANGLE_def)
  moreover from a have "unat angle \<le> unat (180 :: uint8)" by simp
  ultimately have "unat (AngleToTicks cfg angle) \<le> unat (AngleToTicks cfg 180)"
    using assms(1) by (intro AngleToTicks_le)
  then show "AngleToTicks cfg angle \<le> SERVO_US_TO_TICKS cfg 2000"
    by (simp only: word_le_nat_alt AngleToTicks_180 [OF assms(1)])
  have "unat (0 :: uint8) \<le> unat angle" by simp
  then have "unat (AngleToTicks cfg 0) \<le> unat (AngleToTicks cfg angle)"
    using assms by (intro AngleToTicks_le)
  then show "SERVO_US_TO_TICKS cfg 1000 \<le> AngleToTicks cfg angle"
    by (simp only: word_le_nat_alt AngleToTicks_0 [OF assms(1)])
qed

text \<open>
  Claim C8. With a 32-bit or a 64-bit \<^verbatim>\<open>double\<close> the conversion is exact at both ends
  of the range: angle 0 gives \<open>SERVO_US_TO_TICKS(1000)\<close> and angle 180 gives
  \<open>SERVO_US_TO_TICKS(2000)\<close>, and the 27-bit field \<open>ticks\<close> of the channel holds exactly
  these values after \<^verbatim>\<open>SERVO_SetAngleByID\<close>.
\<close>

theorem AngleToTicks_endpoints:
  assumes "config_ok cfg"
  shows "AngleToTicks cfg 0 = SERVO_US_TO_TICKS cfg 1000 \<and>
         AngleToTicks cfg 180 = SERVO_US_TO_TICKS cfg 2000 \<and>
         (wf_state s \<and> sid < servo_count s \<longrightarrow>
            ucast (ticks (servo_at (SERVO_SetAngleByID cfg sid 0 s) sid))
              = SERVO_US_TO_TICKS cfg 1000 \<and>
            ucast (ticks (servo_at (SERVO_SetAngleByID cfg sid 180 s) sid))
              = SERVO_US_TO_TICKS cfg 2000)"
proof -
  have a0: "uint (0 :: uint8) \<le> SERVO_MAX_ANGLE" and a180: "uint (180 :: uint8) \<le> SERVO_MAX_ANGLE"
    by (simp_all add: SERVO_MAX_ANGLE_def)
  note e0 = AngleToTicks_0 [OF assms] and e180 = AngleToTicks_180 [OF assms]
  have "ucast (ticks (servo_at (SERVO_SetAngleByID cfg sid 0 s) sid))
              = SERVO_US_TO_TICKS cfg 1000 \<and>
        ucast (ticks (servo_at (SERVO_SetAngleByID cfg sid 180 s) sid))
              = SERVO_US_TO_TICKS cfg 2000"
    if "wf_state s" and "sid < servo_count s"
    using e0 e180 stored_ticks [OF assms a0] stored_ticks [OF assms a180]
    by (simp only: SERVO_SetAngleByID_ticks [OF that a0] SERVO_SetAngleByID_ticks [OF that a180])
  with e0 e180 show ?thesis by blast
qed

lemma config_ok_sample: "config_ok sample_config"
  by (simp add: config_ok_def sample_config_def)

lemma sample_ticks:
  "SERVO_US_TO_TICKS sample_config 1000 = 1000"
  "SERVO_US_TO_TICKS sample_config 1250 = 1250"
  "SERVO_US_TO_TICKS sample_config 1500 = 1500"
  "SERVO_US_TO_TICKS sample_config 2000 = 2000"
  by (simp_all add: SERVO_US_TO_TICKS_def sample_config_def)

theorem AngleToTicks_endpoints_witness:
  "AngleToTicks sample_config 0 = 1000 \<and>
   AngleToTicks sample_config 180 = 2000 \<and>
   ucast (ticks (servo_at (SERVO_SetAngleByID sample_config 0 0 one_servo) 0)) = (1000 :: uint32) \<and>
   ucast (ticks (servo_at (SERVO_SetAngleByID sample_config 0 180 one_servo) 0)) = (2000 :: uint32)"
proof -
  have "wf_state one_servo \<and> (0 :: uint8) < servo_count one_servo"
    by (simp add: wf_one_servo one_servo_fields)
  with AngleToTicks_endpoints [OF config_ok_sample, of one_servo 0]
  show ?thesis by (simp add: sample_ticks)
qed

text \<open>
  Claim C9. With a 32-bit or a 64-bit \<^verbatim>\<open>double\<close>, a larger angle within 0 to 180 never
  gives fewer ticks, neither as computed nor as stored in the 27-bit field.
\<close>

theorem AngleToTicks_mono:
  assumes "config_ok cfg" and "a1 \<le> a2" and "uint a2 \<le> SERVO_MAX_ANGLE"
  shows "AngleToTicks cfg a1 \<le> AngleToTicks cfg a2 \<and>
         (ucast (AngleToTicks cfg a1) :: 27 word) \<le> ucast (AngleToTicks cfg a2)"
proof -
  have le: "unat a1 \<le> unat a2"
    using assms(2) by (simp add: word_le_nat_alt)
  have "uint a1 \<le> uint a2"
    using le by (simp only: uint_nat)
  with assms(3) have a1: "uint a1 \<le> SERVO_MAX_ANGLE" by simp
  have u: "unat (AngleToTicks cfg a1) \<le> unat (AngleToTicks cfg a2)"
    using assms(1) le assms(3) by (rule AngleToTicks_le)
  have f1: "unat (ucast (AngleToTicks cfg a1) :: 27 word) = unat (AngleToTicks cfg a1)"
    using AngleToTicks_fits [OF assms(1) a1]
    by (simp add: unsigned_ucast_eq take_bit_nat_eq_self)
  have f2: "unat (ucast (AngleToTicks cfg a2) :: 27 word) = unat (AngleToTicks cfg a2)"
    using AngleToTicks_fits [OF assms(1) assms(3)]
    by (simp add: unsigned_ucast_eq take_bit_nat_eq_self)
  from u show ?thesis
    by (simp only: word_le_nat_alt f1 f2)
qed

theorem AngleToTicks_mono_witness:
  "AngleToTicks sample_config 45 \<le> AngleToTicks sample_config 90 \<and>
   (ucast (AngleToTicks sample_config 45) :: 27 word) \<le> ucast (AngleToTicks sample_config 90) \<and>
   AngleToTicks sample_config 45 = 1250 \<and> AngleToTicks sample_config 90 = 1500"
proof -
  have "(45 :: uint8) \<le> 90" and a: "uint (90 :: uint8) \<le> SERVO_MAX_ANGLE"
    and b: "uint (45 :: uint8) \<le> SERVO_MAX_ANGLE"
    by (simp_all add: SERVO_MAX_ANGLE_def)
  then have "AngleToTicks sample_config 45 \<le> AngleToTicks sample_config 90 \<and>
     (ucast (AngleToTicks sample_config 45) :: 27 word) \<le> ucast (AngleToTicks sample_config 90)"
    using AngleToTicks_mono [OF config_ok_sample, of 45 90] by blast
  moreover have "AngleToTicks sample_config 45 = 1250"
    using microseconds_exact [OF config_ok_sample b] by (simp add: AngleToTicks_def sample_ticks)
  moreover have "AngleToTicks sample_config 90 = 1500"
    using microseconds_exact [OF config_ok_sample a] by (simp add: AngleToTicks_def sample_ticks)
  ultimately show ?thesis by blast
qed

subsection \<open>The pulse-width invariant\<close>

lemma pulse_ok_AngleToTicks:
  assumes "config_ok cfg" and "uint angle \<le> SERVO_MAX_ANGLE"
  shows "pulse_ok cfg (sv\<lparr>ticks := ucast (AngleToTicks cfg angle)\<rparr>)"
  using AngleToTicks_bounds [OF assms]
  by (simp add: pulse_ok_def stored_ticks [OF assms])

lemma registry_SetAngleByID:
  "registry (SERVO_SetAngleByID cfg sid angle s)
     = (if SERVO_MIN_ANGLE \<le> uint angle \<and> uint angle \<le> SERVO_MAX_ANGLE \<and> sid < servo_count s
        then (registry s)[unat sid :=
               (servos s ! unat sid)\<lparr>ticks := ucast (AngleToTicks cfg angle)\<rparr>]
        else registry s)"
  by (simp add: registry_def SERVO_SetAngleByID_def take_update_swap)

lemma wf_SetAngleByID: "wf_state (SERVO_SetAngleByID cfg sid angle s) = wf_state s"
  by (simp add: wf_state_def SERVO_SetAngleByID_def)

lemma servo_inv_SetAngleByID:
  assumes "config_ok cfg" and "servo_inv cfg s"
  shows "servo_inv cfg (SERVO_SetAngleByID cfg sid angle s)"
proof (cases "SERVO_MIN_ANGLE \<le> uint angle \<and> uint angle \<le> SERVO_MAX_ANGLE \<and> sid < servo_count s")
  case False
  then have "SERVO_SetAngleByID cfg sid angle s = s"
    by (auto simp: SERVO_SetAngleByID_def)
  with assms(2) show ?thesis by simp
next
  case True
  then have ok: "pulse_ok cfg ((servos s ! unat sid)\<lparr>ticks := ucast (AngleToTicks cfg angle)\<rparr>)"
    using assms(1) by (intro pulse_ok_AngleToTicks) simp_all
  have "set (registry (SERVO_SetAngleByID cfg sid angle s))
          \<subseteq> insert ((servos s ! unat sid)\<lparr>ticks := ucast (AngleToTicks cfg angle)\<rparr>)
                (set (registry s))"
    using True by (simp add: registry_SetAngleByID set_update_subset_insert)
  with ok assms(2) have "\<forall>sv \<in> set (registry (SERVO_SetAngleByID cfg sid angle s)). pulse_ok cfg sv"
    unfolding servo_inv_def by blast
  with assms(2) show ?thesis
    by (simp add: servo_inv_def wf_SetAngleByID)
qed

lemma servo_inv_SetAngleByPin_from:
  "config_ok cfg \<Longrightarrow> servo_inv cfg s \<Longrightarrow>
   servo_inv cfg (SERVO_SetAngleByPin_from cfg prt pn angle i s)"
proof (induction cfg prt pn angle i s rule: SERVO_SetAngleByPin_from.induct)
  case (1 cfg prt pn angle i s)
  show ?case
  proof (cases "i < servo_count s")
    case False
    with "1.prems" show ?thesis
      by (simp add: SERVO_SetAngleByPin_from.simps [of cfg prt pn angle i s])
  next
    case True
    let ?s1 = "if uint (pin (servo_at s i)) = uint pn \<and> uint (port (servo_at s i)) = uint prt
               then SERVO_SetAngleByID cfg i angle s else s"
    have "servo_inv cfg ?s1"
      using "1.prems" by (simp add: servo_inv_SetAngleByID)
    with "1.IH" [OF True "1.prems"(1)]
    have "servo_inv cfg (SERVO_SetAngleByPin_from cfg prt pn angle (i + 1) ?s1)" .
    with True show ?thesis
      by (simp add: SERVO_SetAngleByPin_from.simps [of cfg prt pn angle i s])
  qed
qed

lemma servo_inv_SERVO_Init:
  assumes "servo_inv cfg s"
  shows "servo_inv cfg (snd (SERVO_Init prt pn s))"
proof (cases "SERVO_MAX_NUM \<le> uint (servo_count s)")
  case True
  with assms show ?thesis by (simp add: SERVO_Init_full)
next
  case False
  then have lt: "uint (servo_count s) < SERVO_MAX_NUM" by simp
  from assms have wf: "wf_state s" by (simp add: servo_inv_def)
  have "pulse_ok cfg \<lparr>port = ucast prt, pin = ucast pn, ticks = 0\<rparr>"
    by (simp add: pulse_ok_def)
  with assms have "\<forall>sv \<in> set (registry (snd (SERVO_Init prt pn s))). pulse_ok cfg sv"
    by (simp add: servo_inv_def SERVO_Init_registry [OF wf lt])
  with wf show ?thesis
    by (simp add: servo_inv_def wf_SERVO_Init)
qed

lemma SERVO_Interrupt_fields:
  "servos (SERVO_Interrupt cfg s) = servos s"
  "servo_count (SERVO_Interrupt cfg s) = servo_count s"
  "compb_callback (SERVO_Interrupt cfg s) = compb_callback s"
  by (simp_all add: SERVO_Interrupt_def next_pulse_fields end_pulse_fields)

lemma servo_inv_SERVO_Interrupt:
  "servo_inv cfg (SERVO_Interrupt cfg s) = servo_inv cfg s"
  by (simp add: servo_inv_def wf_state_def registry_def SERVO_Interrupt_fields)

lemma servo_inv_timer_tick: "servo_inv cfg (timer_tick s) = servo_inv cfg s"
  by (simp add: servo_inv_def wf_state_def registry_def timer_tick_def)

lemma servo_inv_init_state: "servo_inv cfg (init_state tcnt ocr)"
proof -
  have "registry (init_state tcnt ocr) = []"
    by (simp add: registry_def init_state_def)
  then show ?thesis
    by (simp add: servo_inv_def wf_init_state)
qed

lemma reachable_servo_inv:
  assumes "config_ok cfg"
  shows "reachable cfg s \<Longrightarrow> servo_inv cfg s"
proof (induction rule: reachable.induct)
  case (power_on tcnt ocr)
  show ?case by (rule servo_inv_init_state)
next
  case (register s prt pn)
  from register.IH show ?case by (rule servo_inv_SERVO_Init)
next
  case (set_by_id s sid angle)
  from assms set_by_id.IH show ?case by (rule servo_inv_SetAngleByID)
next
  case (set_by_pin s prt pn angle)
  from assms set_by_pin.IH show ?case
    unfolding SERVO_SetAngleByPin_def by (rule servo_inv_SetAngleByPin_from)
next
  case (interrupt s)
  from interrupt.IH show ?case by (simp only: servo_inv_SERVO_Interrupt)
next
  case (tick s)
  from tick.IH show ?case by (simp only: servo_inv_timer_tick)
qed

text \<open>
  Claim C7. In every reachable state every registered channel has \<open>ticks = 0\<close> or a
  value from \<open>SERVO_US_TO_TICKS(1000)\<close> to \<open>SERVO_US_TO_TICKS(2000)\<close>, and each of
  \<^verbatim>\<open>SERVO_Init\<close>, \<^verbatim>\<open>SERVO_SetAngleByID\<close>, \<^verbatim>\<open>SERVO_SetAngleByPin\<close> and
  \<^verbatim>\<open>SERVO_Interrupt\<close> keeps it so. The upper bound is the tick count of 2000
  microseconds, as the claim gives it; the unused macro \<open>SERVO_MAX_PULSE_US\<close> of the
  header, defined as 200, plays no part.
\<close>

theorem pulse_width_invariant:
  assumes "config_ok cfg"
  shows "(reachable cfg s \<longrightarrow> (\<forall>sv \<in> set (registry s). pulse_ok cfg sv)) \<and>
         (servo_inv cfg s \<longrightarrow>
            servo_inv cfg (snd (SERVO_Init prt pn s)) \<and>
            servo_inv cfg (SERVO_SetAngleByID cfg sid angle s) \<and>
            servo_inv cfg (SERVO_SetAngleByPin cfg prt pn angle s) \<and>
            servo_inv cfg (SERVO_Interrupt cfg s))"
proof (intro conjI impI)
  assume "reachable cfg s"
  then have "servo_inv cfg s" using assms by (intro reachable_servo_inv)
  then show "\<forall>sv \<in> set (registry s). pulse_ok cfg sv"
    by (simp add: servo_inv_def)
next
  assume inv: "servo_inv cfg s"
  then show "servo_inv cfg (snd (SERVO_Init prt pn s))"
    by (rule servo_inv_SERVO_Init)
  from assms inv show "servo_inv cfg (SERVO_SetAngleByID cfg sid angle s)"
    by (rule servo_inv_SetAngleByID)
  from assms inv show "servo_inv cfg (SERVO_SetAngleByPin cfg prt pn angle s)"
    unfolding SERVO_SetAngleByPin_def by (rule servo_inv_SetAngleByPin_from)
  from inv show "servo_inv cfg (SERVO_Interrupt cfg s)"
    by (simp only: servo_inv_SERVO_Interrupt)
qed

lemma sample_AngleToTicks_90: "AngleToTicks sample_config 90 = 1500"
proof -
  have "uint (90 :: uint8) \<le> SERVO_MAX_ANGLE" by (simp add: SERVO_MAX_ANGLE_def)
  then show ?thesis
    using microseconds_exact [OF config_ok_sample, of 90]
    by (simp add: AngleToTicks_def sample_ticks)
qed

lemma registry_sample_90:
  "registry (SERVO_SetAngleByID sample_config 0 90 one_servo)
     = [\<lparr>port = 1, pin = 5, ticks = 1500\<rparr>]"
proof -
  have "registry one_servo = [\<lparr>port = 1, pin = 5, ticks = 0\<rparr>]"
    by (simp add: registry_def one_servo_fields)
  then show ?thesis
    by (simp add: registry_SetAngleByID SERVO_MIN_ANGLE_def SERVO_MAX_ANGLE_def
        one_servo_fields sample_AngleToTicks_90)
qed

lemma reachable_sample_90:
  "reachable sample_config (SERVO_SetAngleByID sample_config 0 90 one_servo)"
  unfolding one_servo_def
  by (intro reachable.set_by_id reachable.register reachable.power_on)

theorem pulse_width_invariant_witness:
  "registry (SERVO_SetAngleByID sample_config 0 90 one_servo)
     = [\<lparr>port = 1, pin = 5, ticks = 1500\<rparr>] \<and>
   pulse_ok sample_config \<lparr>port = 1, pin = 5, ticks = 1500\<rparr> \<and>
   SERVO_US_TO_TICKS sample_config 1000 = 1000 \<and>
   SERVO_US_TO_TICKS sample_config 2000 = 2000 \<and>
   servo_inv sample_config
     (SERVO_Interrupt sample_config (SERVO_SetAngleByID sample_config 0 90 one_servo))"
proof -
  let ?s = "SERVO_SetAngleByID sample_config 0 90 one_servo"
  note inv = pulse_width_invariant [OF config_ok_sample, of ?s]
  from inv reachable_sample_90
  have "\<forall>sv \<in> set (registry ?s). pulse_ok sample_config sv" by blast
  then have ok: "pulse_ok sample_config \<lparr>port = 1, pin = 5, ticks = 1500\<rparr>"
    by (simp add: registry_sample_90)
  have "servo_inv sample_config ?s"
    using config_ok_sample reachable_sample_90 by (rule reachable_servo_inv)
  with inv have "servo_inv sample_config (SERVO_Interrupt sample_config ?s)" by blast
  with ok show ?thesis
    by (simp add: registry_sample_90 sample_ticks)
qed

text \<open>
  The header's \<open>SERVO_MAX_PULSE_TICKS\<close> is the tick count of 200 microseconds, below
  every commanded pulse width; nothing in the driver reads it.
\<close>

lemma header_max_pulse_ticks:
  "SERVO_MAX_PULSE_TICKS sample_config = 200 \<and> AngleToTicks sample_config 0 = 1000"
  by (simp add: SERVO_MAX_PULSE_TICKS_def SERVO_MAX_PULSE_US_def SERVO_US_TO_TICKS_def
      sample_config_def AngleToTicks_0 config_ok_def)

subsection \<open>Bit-field truncation of port and pin\<close>








lemma SERVO_Interrupt_trace:
  "hw_trace (SERVO_Interrupt cfg s)
     = hw_trace s
       @ (if servo_id s < servo_count s
          then [PinValue (ucast (port (servo_at s (servo_id s))))
                         (ucast (pin (servo_at s (servo_id s)))) LOW]
          else [TimerValue 0])
       @ (let s1 = SERVO_Interrupt_end_pulse s
          in if servo_id s1 < servo_count s
             then (if 0 < ticks (servo_at s (servo_id s1))
                   then [CompareB (ucast ((ucast (TCNT1 s1) :: uint32)
                                            + ucast (ticks (servo_at s (servo_id s1))))),
                         PinValue (ucast (port (servo_at s (servo_id s1))))
                                  (ucast (pin (servo_at s (servo_id s1)))) HIGH]
                   else [])
             else [CompareB (OCR1B (SERVO_Interrupt cfg s))])"
  by (simp add: SERVO_Interrupt_def SERVO_Interrupt_next_pulse_def
      SERVO_Interrupt_end_pulse_def hw_defs servo_at_def Let_def)



lemma unat_index_Suc:
  assumes "i < (c :: uint8)"
  shows "unat (i + 1) = Suc (unat i)"
proof -
  have "unat i < unat c" using assms by (simp add: word_less_nat_alt)
  moreover have "unat c < 256"
    using unsigned_less [of c, where 'a = nat] by simp
  ultimately show ?thesis by (simp add: unat_word_ariths)
qed






subsection \<open>One frame of the scheduler\<close>

lemma high_edges_append: "high_edges (xs @ ys) = high_edges xs @ high_edges ys"
  by (induction xs) (auto split: hw_call.splits level.splits)

lemma fires_snoc: "fires cfg (ts @ [t]) s = fire cfg t (fires cfg ts s)"
  by (induction ts arbitrary: s) simp_all

lemma fire_fields:
  "servos (fire cfg t s) = servos s"
  "servo_count (fire cfg t s) = servo_count s"
  by (simp_all add: fire_def SERVO_Interrupt_fields)

lemma fire_cursor:
  "servo_id (fire cfg t s) = (if servo_id s < servo_count s then servo_id s + 1 else 0)"
  by (simp add: fire_def SERVO_Interrupt_def next_pulse_fields
      SERVO_Interrupt_end_pulse_def hw_defs)

lemma fire_trace: "hw_trace (fire cfg t s) = hw_trace s @ new_calls s (fire cfg t s)"
proof -
  have "hw_trace (SERVO_Interrupt cfg (s\<lparr>TCNT1 := t\<rparr>))
          = hw_trace s @ new_calls s (SERVO_Interrupt cfg (s\<lparr>TCNT1 := t\<rparr>))"
    unfolding new_calls_def by (subst SERVO_Interrupt_trace, subst SERVO_Interrupt_trace) simp
  then show ?thesis by (simp only: fire_def)
qed

lemma fire_new_calls:
  "new_calls s (fire cfg t s)
     = (if servo_id s < servo_count s
        then [PinValue (ucast (port (servo_at s (servo_id s))))
                       (ucast (pin (servo_at s (servo_id s)))) LOW]
        else [TimerValue 0])
       @ (if servo_id (fire cfg t s) < servo_count s
          then (if 0 < ticks (servo_at s (servo_id (fire cfg t s)))
                then [CompareB (ucast ((ucast (if servo_id s < servo_count s then t else 0)
                                          :: uint32)
                                       + ucast (ticks (servo_at s (servo_id (fire cfg t s)))))),
                      PinValue (ucast (port (servo_at s (servo_id (fire cfg t s)))))
                               (ucast (pin (servo_at s (servo_id (fire cfg t s))))) HIGH]
                else [])
          else [CompareB (OCR1B (fire cfg t s))])"
proof -
  let ?s = "s\<lparr>TCNT1 := t\<rparr>"
  have id: "servo_id (SERVO_Interrupt_end_pulse ?s) = servo_id (fire cfg t s)"
    by (simp add: fire_def SERVO_Interrupt_def next_pulse_fields)
  have tc: "TCNT1 (SERVO_Interrupt_end_pulse ?s) = (if servo_id s < servo_count s then t else 0)"
    by (simp add: SERVO_Interrupt_end_pulse_def hw_defs)
  have "new_calls s (fire cfg t s)
          = drop (length (hw_trace ?s)) (hw_trace (SERVO_Interrupt cfg ?s))"
    by (simp add: new_calls_def fire_def)
  also have "\<dots> = (if servo_id s < servo_count s
          then [PinValue (ucast (port (servo_at s (servo_id s))))
                         (ucast (pin (servo_at s (servo_id s)))) LOW]
          else [TimerValue 0])
       @ (if servo_id (fire cfg t s) < servo_count s
             then (if 0 < ticks (servo_at s (servo_id (fire cfg t s)))
                   then [CompareB (ucast ((ucast (TCNT1 (SERVO_Interrupt_end_pulse ?s)) :: uint32)
                                            + ucast (ticks (servo_at s (servo_id (fire cfg t s)))))),
                         PinValue (ucast (port (servo_at s (servo_id (fire cfg t s)))))
                                  (ucast (pin (servo_at s (servo_id (fire cfg t s))))) HIGH]
                   else [])
             else [CompareB (OCR1B (SERVO_Interrupt cfg ?s))])"
    by (subst SERVO_Interrupt_trace) (simp add: Let_def id servo_at_def)
  finally show ?thesis
    by (simp only: tc fire_def [symmetric])
qed

lemma fire_high_edges:
  "high_edges (new_calls s (fire cfg t s))
     = (if servo_id (fire cfg t s) < servo_count s \<and>
           ticks (servo_at s (servo_id (fire cfg t s))) \<noteq> 0
        then [channel_pin (servo_at s (servo_id (fire cfg t s)))]
        else [])"
  by (simp add: fire_new_calls high_edges_append channel_pin_def word_greater_zero_iff)

lemma unat_count_le_length:
  assumes "wf_state s"
  shows "unat (servo_count s) \<le> length (servos s)"
proof -
  have "int (unat (servo_count s)) \<le> SERVO_MAX_NUM"
    using assms by (simp only: wf_state_def uint_nat)
  moreover have "length (servos s) = nat SERVO_MAX_NUM"
    using assms by (simp add: wf_state_def)
  ultimately show ?thesis by linarith
qed

lemma take_Suc_registry:
  assumes "wf_state s"
  shows "take (Suc n) (registry s)
           = take n (registry s) @ (if n < unat (servo_count s) then [servos s ! n] else [])"
proof (cases "n < unat (servo_count s)")
  case True
  with unat_count_le_length [OF assms] have "n < length (servos s)" by linarith
  with True show ?thesis
    by (simp add: registry_def min_def take_Suc_conv_app_nth)
next
  case False
  then show ?thesis by (simp add: registry_def min_def)
qed

lemma new_calls_trans:
  assumes "hw_trace s1 = hw_trace s @ new_calls s s1"
    and "hw_trace s2 = hw_trace s1 @ new_calls s1 s2"
  shows "hw_trace s2 = hw_trace s @ new_calls s s2"
    and "new_calls s s2 = new_calls s s1 @ new_calls s1 s2"
proof -
  have "hw_trace s2 = hw_trace s @ (new_calls s s1 @ new_calls s1 s2)"
    by (subst assms(2), subst assms(1)) simp
  then show "new_calls s s2 = new_calls s s1 @ new_calls s1 s2"
    by (simp add: new_calls_def [of s s2])
  then show "hw_trace s2 = hw_trace s @ new_calls s s2"
    using \<open>hw_trace s2 = hw_trace s @ (new_calls s s1 @ new_calls s1 s2)\<close> by simp
qed

lemma frame_prefix:
  assumes wf: "wf_state s" and start: "\<not> servo_id s < servo_count s"
  shows "ts \<noteq> [] \<Longrightarrow> length ts \<le> Suc (unat (servo_count s)) \<Longrightarrow>
         unat (servo_id (fires cfg ts s)) = length ts - 1 \<and>
         servos (fires cfg ts s) = servos s \<and>
         servo_count (fires cfg ts s) = servo_count s \<and>
         hw_trace (fires cfg ts s) = hw_trace s @ new_calls s (fires cfg ts s) \<and>
         high_edges (new_calls s (fires cfg ts s))
           = map channel_pin (filter (\<lambda>sv. ticks sv \<noteq> 0) (take (length ts) (registry s)))"
proof (induction ts rule: rev_induct)
  case Nil
  then show ?case by simp
next
  case (snoc t ts)
  show ?case
  proof (cases "ts = []")
    case True
    have id: "servo_id (fire cfg t s) = 0"
      using start by (simp add: fire_cursor)
    have "take (Suc 0) (registry s)
            = (if 0 < unat (servo_count s) then [servos s ! 0] else [])"
      using take_Suc_registry [OF wf, of 0] by simp
    moreover have "(0 :: uint8) < servo_count s \<longleftrightarrow> 0 < unat (servo_count s)"
      by (simp add: word_less_nat_alt)
    ultimately have "high_edges (new_calls s (fire cfg t s))
           = map channel_pin (filter (\<lambda>sv. ticks sv \<noteq> 0) (take (Suc 0) (registry s)))"
      by (simp add: fire_high_edges id servo_at_def)
    with True id show ?thesis
      by (simp add: fire_fields fire_trace)
  next
    case False
    let ?n = "length ts"
    let ?s1 = "fires cfg ts s"
    from False have n1: "0 < ?n" by simp
    from snoc.prems have nle: "?n \<le> unat (servo_count s)" by simp
    from snoc.IH [OF False] nle
    have ih: "unat (servo_id ?s1) = ?n - 1" "servos ?s1 = servos s"
      "servo_count ?s1 = servo_count s"
      "hw_trace ?s1 = hw_trace s @ new_calls s ?s1"
      "high_edges (new_calls s ?s1)
         = map channel_pin (filter (\<lambda>sv. ticks sv \<noteq> 0) (take ?n (registry s)))"
      by simp_all
    have "?n - 1 < unat (servo_count s)"
      using n1 nle by linarith
    then have lt: "servo_id ?s1 < servo_count ?s1"
      by (simp only: word_less_nat_alt ih(1,3))
    let ?s2 = "fire cfg t ?s1"
    have id: "servo_id ?s2 = servo_id ?s1 + 1"
      using lt by (simp add: fire_cursor)
    have "Suc (?n - 1) = ?n"
      using n1 by linarith
    then have uid: "unat (servo_id ?s2) = ?n"
      by (simp only: id unat_index_Suc [OF lt] ih(1))
    have tr: "hw_trace ?s2 = hw_trace s @ new_calls s ?s2"
      and nc: "new_calls s ?s2 = new_calls s ?s1 @ new_calls ?s1 ?s2"
      using new_calls_trans [OF ih(4) fire_trace [of cfg t ?s1]] by simp_all
    have cmp: "servo_id ?s2 < servo_count s \<longleftrightarrow> ?n < unat (servo_count s)"
      by (simp add: word_less_nat_alt uid)
    have "high_edges (new_calls ?s1 ?s2)
            = (if ?n < unat (servo_count s) \<and> ticks (servos s ! ?n) \<noteq> 0
               then [channel_pin (servos s ! ?n)] else [])"
      by (simp add: fire_high_edges ih(2,3) servo_at_def uid cmp)
    then have "high_edges (new_calls s ?s2)
           = map channel_pin (filter (\<lambda>sv. ticks sv \<noteq> 0) (take (Suc ?n) (registry s)))"
      by (simp add: nc high_edges_append ih(5) take_Suc_registry [OF wf])
    with uid tr show ?thesis
      by (simp add: fires_snoc fire_fields ih(2,3))
  qed
qed

lemma fire_OCR1B_zero_width:
  assumes "servo_id (fire cfg t s) < servo_count s"
    and "ticks (servo_at s (servo_id (fire cfg t s))) = 0"
  shows "OCR1B (fire cfg t s) = OCR1B s"
proof -
  let ?s1 = "SERVO_Interrupt_end_pulse (s\<lparr>TCNT1 := t\<rparr>)"
  have id: "servo_id ?s1 = servo_id (fire cfg t s)"
    by (simp add: fire_def SERVO_Interrupt_def next_pulse_fields)
  have "servo_id ?s1 < servo_count ?s1" "ticks (servo_at ?s1 (servo_id ?s1)) = 0"
    using assms by (simp_all add: id end_pulse_fields servo_at_def)
  then have "SERVO_Interrupt_next_pulse cfg ?s1 = ?s1"
    by (simp add: SERVO_Interrupt_next_pulse_def)
  then show ?thesis
    by (simp add: fire_def SERVO_Interrupt_def end_pulse_fields)
qed

lemma timer_ticks: "(timer_tick ^^ n) s = s\<lparr>TCNT1 := TCNT1 s + of_nat n\<rparr>"
  by (induction n) (simp_all add: timer_tick_def)

lemma compare_match_recurs:
  "\<exists>n. 0 < n \<and> n \<le> 2 ^ 16 \<and> compare_match ((timer_tick ^^ n) s)"
proof (cases "OCR1B s = TCNT1 s")
  case True
  have "(word_of_nat (2 ^ 16) :: uint16) = 0" by simp
  with True have "compare_match ((timer_tick ^^ (2 ^ 16)) s)"
    by (simp only: timer_ticks compare_match_def) simp
  then show ?thesis by (intro exI [of _ "2 ^ 16"]) simp
next
  case False
  let ?d = "OCR1B s - TCNT1 s"
  from False have "?d \<noteq> 0" by simp
  then have pos: "0 < unat ?d" by (simp add: unat_gt_0)
  have le: "unat ?d \<le> 2 ^ 16"
    using unsigned_less [of ?d, where 'a = nat] by simp
  have "compare_match ((timer_tick ^^ unat ?d) s)"
    by (simp add: timer_ticks compare_match_def)
  with pos le show ?thesis by blast
qed

text \<open>
  A frame, counted in invocations: the handler is invoked with the cursor out of range,
  and then again and again, whatever the counter reads each time. After \<open>n + 1\<close>
  invocations the cursor is \<open>n\<close>, up to the count. The pins driven high so far are those
  of the channels up to the cursor with \<open>ticks \<noteq> 0\<close>, in order. The handler never changes
  the registry. The invocation that moves the cursor onto a channel with \<open>ticks = 0\<close>
  makes no call but the one that ends the previous pulse (or resets the counter), and
  leaves the compare register as it was.
\<close>

lemma frame_high_edges:
  assumes "wf_state s" and "\<not> servo_id s < servo_count s"
    and "length ts \<le> unat (servo_count s)"
  shows "unat (servo_id (fires cfg (ts @ [t]) s)) = length ts \<and>
         high_edges (new_calls s (fires cfg (ts @ [t]) s))
           = map channel_pin
               (filter (\<lambda>sv. ticks sv \<noteq> 0) (take (Suc (length ts)) (registry s))) \<and>
         registry (fires cfg (ts @ [t]) s) = registry s \<and>
         (length ts < unat (servo_count s) \<and> ticks (servos s ! length ts) = 0 \<longrightarrow>
            new_calls (fires cfg ts s) (fires cfg (ts @ [t]) s)
              = [if ts = [] then TimerValue 0
                 else PinValue (fst (channel_pin (servos s ! (length ts - 1))))
                               (snd (channel_pin (servos s ! (length ts - 1)))) LOW] \<and>
            OCR1B (fires cfg (ts @ [t]) s) = OCR1B (fires cfg ts s)) \<and>
         (\<exists>n. 0 < n \<and> n \<le> 2 ^ 16 \<and>
              compare_match ((timer_tick ^^ n) (fires cfg (ts @ [t]) s)))"
proof -
  let ?s1 = "fires cfg ts s"
  let ?s2 = "fires cfg (ts @ [t]) s"
  have s2: "?s2 = fire cfg t ?s1" by (rule fires_snoc)
  have "ts @ [t] \<noteq> []" and "length (ts @ [t]) \<le> Suc (unat (servo_count s))"
    using assms(3) by simp_all
  from frame_prefix [OF assms(1,2) this, of cfg]
  have whole: "unat (servo_id ?s2) = length ts" "servos ?s2 = servos s"
    "servo_count ?s2 = servo_count s"
    "high_edges (new_calls s ?s2)
       = map channel_pin (filter (\<lambda>sv. ticks sv \<noteq> 0) (take (Suc (length ts)) (registry s)))"
    by simp_all
  have reg: "registry ?s2 = registry s"
    by (simp add: registry_def whole)
  have b1: "servos ?s1 = servos s" and b2: "servo_count ?s1 = servo_count s"
    and b3: "ts \<noteq> [] \<Longrightarrow> servo_id ?s1 < servo_count s"
    and b4: "ts \<noteq> [] \<Longrightarrow> unat (servo_id ?s1) = length ts - 1"
  proof -
    have "servos ?s1 = servos s \<and> servo_count ?s1 = servo_count s \<and>
          (ts \<noteq> [] \<longrightarrow> servo_id ?s1 < servo_count s \<and> unat (servo_id ?s1) = length ts - 1)"
    proof (cases "ts = []")
      case True
      then show ?thesis by simp
    next
      case False
      from assms(3) have "length ts \<le> Suc (unat (servo_count s))" by simp
      from frame_prefix [OF assms(1,2) False this, of cfg]
      have p: "unat (servo_id ?s1) = length ts - 1" "servos ?s1 = servos s"
        "servo_count ?s1 = servo_count s"
        by simp_all
      from False have "0 < length ts" by simp
      with assms(3) have "length ts - 1 < unat (servo_count s)" by linarith
      then have "servo_id ?s1 < servo_count s"
        by (simp only: word_less_nat_alt p)
      with p show ?thesis by simp
    qed
    then show "servos ?s1 = servos s" "servo_count ?s1 = servo_count s"
      "ts \<noteq> [] \<Longrightarrow> servo_id ?s1 < servo_count s"
      "ts \<noteq> [] \<Longrightarrow> unat (servo_id ?s1) = length ts - 1"
      by simp_all
  qed
  have zero: "new_calls ?s1 ?s2
              = [if ts = [] then TimerValue 0
                 else PinValue (fst (channel_pin (servos s ! (length ts - 1))))
                               (snd (channel_pin (servos s ! (length ts - 1)))) LOW] \<and>
            OCR1B ?s2 = OCR1B ?s1"
    if "length ts < unat (servo_count s) \<and> ticks (servos s ! length ts) = 0"
  proof -
    have uid: "unat (servo_id (fire cfg t ?s1)) = length ts"
      using whole(1) by (simp only: s2)
    from that have lt: "servo_id (fire cfg t ?s1) < servo_count ?s1"
      by (simp only: word_less_nat_alt uid b2)
    from that have z: "ticks (servo_at ?s1 (servo_id (fire cfg t ?s1))) = 0"
      by (simp only: servo_at_def uid b1)
    from lt z have ocr: "OCR1B (fire cfg t ?s1) = OCR1B ?s1"
      by (rule fire_OCR1B_zero_width)
    have calls: "new_calls ?s1 (fire cfg t ?s1)
              = [if ts = [] then TimerValue 0
                 else PinValue (fst (channel_pin (servos s ! (length ts - 1))))
                               (snd (channel_pin (servos s ! (length ts - 1)))) LOW]"
    proof (cases "ts = []")
      case True
      with assms(2) lt z show ?thesis
        by (simp add: fire_new_calls)
    next
      case False
      with b3 [OF False] b4 [OF False] lt z show ?thesis
        by (simp add: fire_new_calls b1 b2 channel_pin_def servo_at_def)
    qed
    from ocr calls show ?thesis by (simp only: s2)
  qed
  show ?thesis
  proof (intro conjI impI)
    show "unat (servo_id ?s2) = length ts" by (rule whole(1))
    show "high_edges (new_calls s ?s2)
       = map channel_pin (filter (\<lambda>sv. ticks sv \<noteq> 0) (take (Suc (length ts)) (registry s)))"
      by (rule whole(4))
    show "registry ?s2 = registry s" by (rule reg)
    show "\<exists>n. 0 < n \<and> n \<le> 2 ^ 16 \<and> compare_match ((timer_tick ^^ n) ?s2)"
      by (rule compare_match_recurs)
  next
    assume h: "length ts < unat (servo_count s) \<and> ticks (servos s ! length ts) = 0"
    from zero [OF h]
    show "new_calls ?s1 ?s2
              = [if ts = [] then TimerValue 0
                 else PinValue (fst (channel_pin (servos s ! (length ts - 1))))
                               (snd (channel_pin (servos s ! (length ts - 1)))) LOW]"
      by (rule conjunct1)
    from zero [OF h] show "OCR1B ?s2 = OCR1B ?s1" by (rule conjunct2)
  qed
qed

lemma three_servos_fields:
  "servo_count three_servos = 3"
  "servo_id three_servos = 0xFF"
  "servos three_servos
     = [\<lparr>port = 0, pin = 0, ticks = 1000\<rparr>, \<lparr>port = 0, pin = 1, ticks = 0\<rparr>,
        \<lparr>port = 0, pin = 2, ticks = 2000\<rparr>] @ replicate 6 \<lparr>port = 0, pin = 0, ticks = 0\<rparr>"
proof -
  have "(9 :: nat) = Suc (Suc (Suc 6))" by simp
  then have rep: "replicate 9 z = z # z # z # replicate 6 z" for z :: Servo
    by (simp only: replicate_Suc)
  have t0: "AngleToTicks sample_config 0 = 1000" and t180: "AngleToTicks sample_config 180 = 2000"
    by (simp_all add: AngleToTicks_0 AngleToTicks_180 config_ok_sample sample_ticks)
  note defs = three_servos_def SERVO_SetAngleByID_def SERVO_Init_def init_state_def
    SERVO_MAX_NUM_def SERVO_MIN_ANGLE_def SERVO_MAX_ANGLE_def Let_def hw_defs rep t0 t180
  show "servo_count three_servos = 3" "servo_id three_servos = 0xFF"
    by (simp_all add: defs)
  show "servos three_servos
     = [\<lparr>port = 0, pin = 0, ticks = 1000\<rparr>, \<lparr>port = 0, pin = 1, ticks = 0\<rparr>,
        \<lparr>port = 0, pin = 2, ticks = 2000\<rparr>] @ replicate 6 \<lparr>port = 0, pin = 0, ticks = 0\<rparr>"
    by (simp add: defs)
qed

lemma wf_three_servos: "wf_state three_servos"
  by (simp add: wf_state_def three_servos_fields SERVO_MAX_NUM_def)

lemma frame_high_edges_sample:
  "unat (servo_id (fires sample_config [0, 1000, 1000, 3000] three_servos)) = 3 \<and>
   high_edges (new_calls three_servos (fires sample_config [0, 1000, 1000, 3000] three_servos))
     = [(0, 0), (0, 2)] \<and>
   new_calls (fires sample_config [0] three_servos) (fires sample_config [0, 1000] three_servos)
     = [PinValue 0 0 LOW] \<and>
   OCR1B (fires sample_config [0, 1000] three_servos)
     = OCR1B (fires sample_config [0] three_servos)"
proof -
  have start: "\<not> servo_id three_servos < servo_count three_servos"
    by (simp add: three_servos_fields)
  have reg: "registry three_servos
     = [\<lparr>port = 0, pin = 0, ticks = 1000\<rparr>, \<lparr>port = 0, pin = 1, ticks = 0\<rparr>,
        \<lparr>port = 0, pin = 2, ticks = 2000\<rparr>]"
    by (simp add: registry_def three_servos_fields)
  have l3: "length [0, 1000, 1000 :: uint16] \<le> unat (servo_count three_servos)"
    and l1: "length [0 :: uint16] \<le> unat (servo_count three_servos)"
    by (simp_all add: three_servos_fields)
  note frame = frame_high_edges [OF wf_three_servos start l3, of sample_config 3000]
  note skip = frame_high_edges [OF wf_three_servos start l1, of sample_config 1000]
  have a: "unat (servo_id (fires sample_config [0, 1000, 1000, 3000] three_servos)) = 3"
    using frame by simp
  have b: "high_edges (new_calls three_servos
             (fires sample_config [0, 1000, 1000, 3000] three_servos)) = [(0, 0), (0, 2)]"
    using frame by (simp add: reg channel_pin_def)
  have "length [0 :: uint16] < unat (servo_count three_servos) \<and>
        ticks (servos three_servos ! length [0 :: uint16]) = 0"
    by (simp add: three_servos_fields)
  with skip have
    "new_calls (fires sample_config [0] three_servos) (fires sample_config ([0] @ [1000]) three_servos)
       = [if [0 :: uint16] = [] then TimerValue 0
          else PinValue (fst (channel_pin (servos three_servos ! (length [0 :: uint16] - 1))))
                        (snd (channel_pin (servos three_servos ! (length [0 :: uint16] - 1)))) LOW]"
    "OCR1B (fires sample_config ([0] @ [1000]) three_servos)
       = OCR1B (fires sample_config [0] three_servos)"
    by blast+
  then have c: "new_calls (fires sample_config [0] three_servos)
                  (fires sample_config [0, 1000] three_servos) = [PinValue 0 0 LOW]"
    and d: "OCR1B (fires sample_config [0, 1000] three_servos)
              = OCR1B (fires sample_config [0] three_servos)"
    by (simp_all add: three_servos_fields channel_pin_def)
  from a b c d show ?thesis by blast
qed

subsection \<open>Compare matches in real time\<close>

lemma ticks_to_match_bounds: "0 < ticks_to_match s \<and> ticks_to_match s \<le> 2 ^ 16"
proof (cases "OCR1B s = TCNT1 s")
  case True
  then show ?thesis by (simp add: ticks_to_match_def)
next
  case False
  let ?d = "OCR1B s - TCNT1 s"
  from False have "?d \<noteq> 0" by simp
  then have "0 < unat ?d" by (simp add: unat_gt_0)
  moreover have "unat ?d \<le> 2 ^ 16"
    using unsigned_less [of ?d, where 'a = nat] by simp
  ultimately show ?thesis using False by (simp add: ticks_to_match_def)
qed

lemma ticks_to_match_reaches: "TCNT1 s + of_nat (ticks_to_match s) = OCR1B s"
proof (cases "OCR1B s = TCNT1 s")
  case True
  have "(word_of_nat (2 ^ 16) :: uint16) = 0" by simp
  with True show ?thesis by (simp only: ticks_to_match_def if_True) simp
next
  case False
  then show ?thesis by (simp add: ticks_to_match_def)
qed

lemma compare_match_ticks_to_match: "compare_match ((timer_tick ^^ ticks_to_match s) s)"
  by (simp add: timer_ticks compare_match_def ticks_to_match_reaches)

lemma ticks_to_match_least:
  assumes "0 < n" and "n < ticks_to_match s"
  shows "\<not> compare_match ((timer_tick ^^ n) s)"
proof
  assume "compare_match ((timer_tick ^^ n) s)"
  then have eq: "TCNT1 s + of_nat n = OCR1B s"
    by (simp add: timer_ticks compare_match_def)
  from assms(2) ticks_to_match_bounds [of s] have n: "n < 2 ^ 16" by linarith
  then have un: "unat (word_of_nat n :: uint16) = n"
    by (simp add: unat_of_nat)
  have "(word_of_nat n :: uint16) = (TCNT1 s + of_nat n) - TCNT1 s" by simp
  then have d: "(word_of_nat n :: uint16) = OCR1B s - TCNT1 s" by (simp only: eq)
  show False
  proof (cases "OCR1B s = TCNT1 s")
    case True
    with d have "(word_of_nat n :: uint16) = 0" by simp
    then have "unat (word_of_nat n :: uint16) = 0" by simp
    with un assms(1) show False by simp
  next
    case False
    with assms(2) have "n < unat (OCR1B s - TCNT1 s)" by (simp add: ticks_to_match_def)
    with un show False by (simp only: d [symmetric])
  qed
qed

lemma next_invocation_fire: "next_invocation cfg s = fire cfg (OCR1B s) s"
  by (simp add: next_invocation_def fire_def timer_ticks ticks_to_match_reaches)

lemma invocations_0: "invocations cfg 0 s = s"
  by (simp add: invocations_def)

lemma invocations_Suc:
  "invocations cfg (Suc n) s
     = fire cfg (OCR1B (invocations cfg n s)) (invocations cfg n s)"
  by (simp add: invocations_def next_invocation_fire)

lemma fire_timer:
  "TCNT1 (fire cfg t s) = (if servo_id s < servo_count s then t else 0)"
  "OCR1B (fire cfg t s)
     = (if servo_id (fire cfg t s) < servo_count s
        then (if 0 < ticks (servo_at s (servo_id (fire cfg t s)))
              then ucast ((ucast (if servo_id s < servo_count s then t else 0) :: uint32)
                            + ucast (ticks (servo_at s (servo_id (fire cfg t s)))))
              else OCR1B s)
        else (if (ucast ((if servo_id s < servo_count s then t else 0) + 50) :: uint32)
                   < SERVO_PWM_INTERVAL_TICKS cfg
              then ucast (SERVO_PWM_INTERVAL_TICKS cfg)
              else (if servo_id s < servo_count s then t else 0) + 20))"
  "compb_callback (fire cfg t s) = compb_callback s"
  by (simp_all add: fire_def SERVO_Interrupt_def SERVO_Interrupt_next_pulse_def
      SERVO_Interrupt_end_pulse_def hw_defs servo_at_def)

lemma reachable_ticks: "reachable cfg s \<Longrightarrow> reachable cfg ((timer_tick ^^ n) s)"
  by (induction n) (simp_all add: reachable.tick)

lemma reachable_invocations:
  assumes "reachable cfg s" and "compb_callback s"
  shows "reachable cfg (invocations cfg n s) \<and> compb_callback (invocations cfg n s)"
proof (induction n)
  case 0
  with assms show ?case by (simp add: invocations_0)
next
  case (Suc n)
  let ?s = "invocations cfg n s"
  from Suc have r: "reachable cfg ?s" and c: "compb_callback ?s" by simp_all
  have "reachable cfg ((timer_tick ^^ ticks_to_match ?s) ?s)"
    using r by (rule reachable_ticks)
  moreover have "compb_callback ((timer_tick ^^ ticks_to_match ?s) ?s)"
    using c by (simp add: timer_ticks)
  ultimately have "reachable cfg (next_invocation cfg ?s)"
    unfolding next_invocation_def by (rule reachable.interrupt)
  moreover have "compb_callback (next_invocation cfg ?s)"
    using c by (simp add: next_invocation_fire fire_timer)
  ultimately show ?case by (simp add: invocations_def)
qed

lemma three_servos_timer:
  "TCNT1 three_servos = 0" "OCR1B three_servos = 0" "compb_callback three_servos"
  by (simp_all add: three_servos_def SERVO_SetAngleByID_def SERVO_Init_def init_state_def
      SERVO_MAX_NUM_def Let_def hw_defs)

lemma reachable_three_servos: "reachable sample_config three_servos"
  unfolding three_servos_def
  by (simp add: Let_def split_beta)
    (intro reachable.set_by_id reachable.register reachable.power_on)

lemma stale_compare_fields:
  "servo_count stale_compare = 1"
  "servo_id stale_compare = 0xFF"
  "servos stale_compare
     = \<lparr>port = 1, pin = 5, ticks = 0\<rparr> # replicate 8 \<lparr>port = 0, pin = 0, ticks = 0\<rparr>"
  "TCNT1 stale_compare = 0" "OCR1B stale_compare = 65500" "compb_callback stale_compare"
proof -
  have "(9 :: nat) = Suc 8" by simp
  then have rep: "replicate 9 z = z # replicate 8 z" for z :: Servo
    by (simp only: replicate_Suc)
  note defs = stale_compare_def SERVO_Init_def init_state_def SERVO_MAX_NUM_def Let_def
    hw_defs rep
  show "servo_count stale_compare = 1" "servo_id stale_compare = 0xFF"
    "TCNT1 stale_compare = 0" "OCR1B stale_compare = 65500" "compb_callback stale_compare"
    by (simp_all add: defs)
  show "servos stale_compare
     = \<lparr>port = 1, pin = 5, ticks = 0\<rparr> # replicate 8 \<lparr>port = 0, pin = 0, ticks = 0\<rparr>"
    by (simp add: defs)
qed

lemma reachable_stale_compare: "reachable sample_config stale_compare"
  unfolding stale_compare_def by (intro reachable.register reachable.power_on)

text \<open>
  Claim C2. A channel with \<open>ticks = 0\<close> gets no rising edge, but the scheduler stalls on
  it. The handler arms no compare match when the cursor lands on such a channel: the
  compare register keeps the value that has just matched, so the next match comes only
  when the 16-bit counter has wrapped around, \<open>2 ^ 16\<close> ticks later, whatever the length
  of the frame. With the three servos at 1000, 0 and 2000 ticks and a frame of 20000 ticks:
  the first invocation resets the counter and starts the pulse of channel 0; the second,
  1000 ticks later, ends it, moves the cursor to channel 1 and makes no other call; the
  counter and the compare register both read 1000, and no compare match occurs during the
  next 65535 ticks; the third invocation, 65536 ticks after the second, starts the pulse
  of channel 2, which is 66536 ticks after the start of the frame.
\<close>

theorem zero_width_channel_stalls:
  "registry three_servos
     = [\<lparr>port = 0, pin = 0, ticks = 1000\<rparr>, \<lparr>port = 0, pin = 1, ticks = 0\<rparr>,
        \<lparr>port = 0, pin = 2, ticks = 2000\<rparr>] \<and>
   SERVO_PWM_INTERVAL_TICKS sample_config = 20000 \<and>
   new_calls three_servos (invocations sample_config 1 three_servos)
     = [TimerValue 0, CompareB 1000, PinValue 0 0 HIGH] \<and>
   ticks_to_match (invocations sample_config 1 three_servos) = 1000 \<and>
   new_calls (invocations sample_config 1 three_servos)
             (invocations sample_config 2 three_servos) = [PinValue 0 0 LOW] \<and>
   servo_id (invocations sample_config 2 three_servos) = 1 \<and>
   TCNT1 (invocations sample_config 2 three_servos) = 1000 \<and>
   OCR1B (invocations sample_config 2 three_servos) = 1000 \<and>
   list_all (\<lambda>n. \<not> compare_match ((timer_tick ^^ n) (invocations sample_config 2 three_servos)))
     [1 ..< 65536] \<and>
   ticks_to_match (invocations sample_config 2 three_servos) = 65536 \<and>
   new_calls (invocations sample_config 2 three_servos)
             (invocations sample_config 3 three_servos)
     = [PinValue 0 1 LOW, CompareB 3000, PinValue 0 2 HIGH]"
proof -
  let ?c = sample_config
  let ?sv = "[\<lparr>port = 0, pin = 0, ticks = 1000\<rparr>, \<lparr>port = 0, pin = 1, ticks = 0\<rparr>,
        \<lparr>port = 0, pin = 2, ticks = 2000\<rparr>] @ replicate 6 \<lparr>port = 0, pin = 0, ticks = 0\<rparr>"
  let ?s0 = three_servos
  let ?s1 = "invocations ?c (Suc 0) ?s0"
  let ?s2 = "invocations ?c (Suc (Suc 0)) ?s0"
  let ?s3 = "invocations ?c (Suc (Suc (Suc 0))) ?s0"
  note f0 = three_servos_fields three_servos_timer
  have reg: "registry ?s0
     = [\<lparr>port = 0, pin = 0, ticks = 1000\<rparr>, \<lparr>port = 0, pin = 1, ticks = 0\<rparr>,
        \<lparr>port = 0, pin = 2, ticks = 2000\<rparr>]"
    by (simp add: registry_def three_servos_fields)
  have e1: "?s1 = fire ?c 0 ?s0"
    by (simp only: invocations_Suc invocations_0 f0)
  have f1: "servos ?s1 = ?sv" "servo_count ?s1 = 3" "servo_id ?s1 = 0" "TCNT1 ?s1 = 0"
    "OCR1B ?s1 = 1000"
    by (simp_all add: e1 fire_fields fire_cursor fire_timer f0 servo_at_def)
  have n1: "new_calls ?s0 ?s1 = [TimerValue 0, CompareB 1000, PinValue 0 0 HIGH]"
    by (simp add: e1 fire_new_calls fire_cursor f0 servo_at_def)
  have e2: "?s2 = fire ?c 1000 ?s1"
    by (simp only: invocations_Suc [of ?c "Suc 0"] f1)
  have f2: "servos ?s2 = ?sv" "servo_count ?s2 = 3" "servo_id ?s2 = 1" "TCNT1 ?s2 = 1000"
    "OCR1B ?s2 = 1000"
    by (simp_all add: e2 fire_fields fire_cursor fire_timer f1 servo_at_def)
  have n2: "new_calls ?s1 ?s2 = [PinValue 0 0 LOW]"
    by (simp add: e2 fire_new_calls fire_cursor f1 servo_at_def)
  have e3: "?s3 = fire ?c 1000 ?s2"
    by (simp only: invocations_Suc [of ?c "Suc (Suc 0)"] f2)
  have n3: "new_calls ?s2 ?s3 = [PinValue 0 1 LOW, CompareB 3000, PinValue 0 2 HIGH]"
    by (simp add: e3 fire_new_calls fire_cursor f2 servo_at_def)
  have t1: "ticks_to_match ?s1 = 1000" and t2: "ticks_to_match ?s2 = 65536"
    by (simp_all add: ticks_to_match_def f1 f2)
  have "\<not> compare_match ((timer_tick ^^ n) ?s2)" if "n \<in> set [1 ..< 65536]" for n
  proof (rule ticks_to_match_least)
    from that show "0 < n" by simp
    from that show "n < ticks_to_match ?s2" by (simp add: t2)
  qed
  then have quiet: "list_all (\<lambda>n. \<not> compare_match ((timer_tick ^^ n) ?s2)) [1 ..< 65536]"
    by (simp only: list_all_iff) blast
  have nums: "(1 :: nat) = Suc 0" "(2 :: nat) = Suc (Suc 0)" "(3 :: nat) = Suc (Suc (Suc 0))"
    by simp_all
  note run = n1 t1 n2 f2(3,4,5) t2 n3
  have "list_all (\<lambda>n. \<not> compare_match ((timer_tick ^^ n) (invocations ?c 2 ?s0))) [1 ..< 65536]"
    using quiet by (simp only: nums(2))
  moreover from run have "new_calls ?s0 (invocations ?c 1 ?s0)
            = [TimerValue 0, CompareB 1000, PinValue 0 0 HIGH] \<and>
        ticks_to_match (invocations ?c 1 ?s0) = 1000 \<and>
        new_calls (invocations ?c 1 ?s0) (invocations ?c 2 ?s0) = [PinValue 0 0 LOW] \<and>
        servo_id (invocations ?c 2 ?s0) = 1 \<and>
        TCNT1 (invocations ?c 2 ?s0) = 1000 \<and>
        OCR1B (invocations ?c 2 ?s0) = 1000 \<and>
        ticks_to_match (invocations ?c 2 ?s0) = 65536 \<and>
        new_calls (invocations ?c 2 ?s0) (invocations ?c 3 ?s0)
          = [PinValue 0 1 LOW, CompareB 3000, PinValue 0 2 HIGH]"
    by (simp only: nums)
  ultimately show ?thesis
    using reg sample_interval by blast
qed

lemma reachable_zero_width_run:
  "reachable sample_config (invocations sample_config 3 three_servos)"
  using reachable_invocations [OF reachable_three_servos three_servos_timer(3)] by blast

text \<open>
  The same holds in general: when a compare match ends a pulse and moves the cursor to a
  channel with \<open>ticks = 0\<close>, the next compare match is \<open>2 ^ 16\<close> ticks away.
\<close>

lemma zero_width_stall:
  assumes "servo_id s < servo_count s" and "servo_id s + 1 < servo_count s"
    and "ticks (servo_at s (servo_id s + 1)) = 0"
  shows "ticks_to_match (next_invocation cfg s) = 2 ^ 16"
proof -
  have id: "servo_id (fire cfg (OCR1B s) s) = servo_id s + 1"
    using assms(1) by (simp add: fire_cursor)
  have "TCNT1 (fire cfg (OCR1B s) s) = OCR1B s"
    using assms(1) by (simp add: fire_timer)
  moreover have "OCR1B (fire cfg (OCR1B s) s) = OCR1B s"
    using assms(2,3) by (simp add: fire_timer id)
  ultimately show ?thesis
    by (simp add: next_invocation_fire ticks_to_match_def)
qed

text \<open>
  Claim C3. With the cursor past the last channel the handler compares the 16-bit sum of
  the counter and 50 with the frame boundary, and that sum wraps around: at a counter of
  65486 or more it is below the frame boundary although the counter is far beyond it, and
  the handler arms the frame boundary instead of the short delay. One servo, never
  commanded, with the compare register at 65500 when the timer was set up: the first
  invocation resets the counter and the cursor and makes no other call; the second comes
  at the counter value 65500, ends the frame with the cursor past the last channel, reads
  the tick 65500, for which \<open>65500 + 50\<close> is not below the frame boundary 20000, and
  writes 20000 to the compare register, not \<open>65500 + 20\<close>; the next compare match is
  20036 ticks away, after the counter has wrapped.
\<close>

theorem frame_end_near_wrap:
  "registry stale_compare = [\<lparr>port = 1, pin = 5, ticks = 0\<rparr>] \<and>
   SERVO_PWM_INTERVAL_TICKS sample_config = 20000 \<and>
   new_calls stale_compare (invocations sample_config 1 stale_compare) = [TimerValue 0] \<and>
   ticks_to_match (invocations sample_config 1 stale_compare) = 65500 \<and>
   TCNT1 (invocations sample_config 2 stale_compare) = 65500 \<and>
   \<not> servo_id (invocations sample_config 2 stale_compare)
       < servo_count (invocations sample_config 2 stale_compare) \<and>
   \<not> unat (TCNT1 (invocations sample_config 2 stale_compare)) + 50
       < unat (SERVO_PWM_INTERVAL_TICKS sample_config) \<and>
   new_calls (invocations sample_config 1 stale_compare)
             (invocations sample_config 2 stale_compare)
     = [PinValue 1 5 LOW, CompareB 20000] \<and>
   OCR1B (invocations sample_config 2 stale_compare)
     \<noteq> TCNT1 (invocations sample_config 2 stale_compare) + 20 \<and>
   ticks_to_match (invocations sample_config 2 stale_compare) = 20036"
proof -
  let ?c = sample_config
  let ?sv = "\<lparr>port = 1, pin = 5, ticks = 0\<rparr> # replicate 8 \<lparr>port = 0, pin = 0, ticks = 0\<rparr>"
  let ?s0 = stale_compare
  let ?s1 = "invocations ?c (Suc 0) ?s0"
  let ?s2 = "invocations ?c (Suc (Suc 0)) ?s0"
  note f0 = stale_compare_fields
  have reg: "registry ?s0 = [\<lparr>port = 1, pin = 5, ticks = 0\<rparr>]"
    by (simp add: registry_def f0)
  have e1: "?s1 = fire ?c 65500 ?s0"
    by (simp only: invocations_Suc invocations_0 f0)
  have f1: "servos ?s1 = ?sv" "servo_count ?s1 = 1" "servo_id ?s1 = 0" "TCNT1 ?s1 = 0"
    "OCR1B ?s1 = 65500"
    by (simp_all add: e1 fire_fields fire_cursor fire_timer f0 servo_at_def)
  have n1: "new_calls ?s0 ?s1 = [TimerValue 0]"
    by (simp add: e1 fire_new_calls fire_cursor f0 servo_at_def)
  have e2: "?s2 = fire ?c 65500 ?s1"
    by (simp only: invocations_Suc [of ?c "Suc 0"] f1)
  have f2: "servo_count ?s2 = 1" "servo_id ?s2 = 1" "TCNT1 ?s2 = 65500"
    by (simp_all add: e2 fire_fields fire_cursor fire_timer(1) f1)
  have o2: "OCR1B ?s2 = 20000"
    by (simp only: e2 fire_timer(2) fire_cursor f1) (simp add: sample_interval)
  have n2: "new_calls ?s1 ?s2 = [PinValue 1 5 LOW, CompareB 20000]"
    using o2 by (simp add: e2 fire_new_calls fire_cursor f1 servo_at_def)
  have t1: "ticks_to_match ?s1 = 65500" and t2: "ticks_to_match ?s2 = 20036"
    by (simp_all add: ticks_to_match_def f1 f2 o2)
  have nums: "(1 :: nat) = Suc 0" "(2 :: nat) = Suc (Suc 0)"
    by simp_all
  have run: "new_calls ?s0 ?s1 = [TimerValue 0] \<and>
        ticks_to_match ?s1 = 65500 \<and>
        TCNT1 ?s2 = 65500 \<and>
        \<not> servo_id ?s2 < servo_count ?s2 \<and>
        \<not> unat (TCNT1 ?s2) + 50 < unat (SERVO_PWM_INTERVAL_TICKS ?c) \<and>
        new_calls ?s1 ?s2 = [PinValue 1 5 LOW, CompareB 20000] \<and>
        OCR1B ?s2 \<noteq> TCNT1 ?s2 + 20 \<and>
        ticks_to_match ?s2 = 20036"
    by (simp add: n1 t1 t2 f2 o2 n2 sample_interval)
  have "new_calls ?s0 (invocations ?c 1 ?s0) = [TimerValue 0] \<and>
        ticks_to_match (invocations ?c 1 ?s0) = 65500 \<and>
        TCNT1 (invocations ?c 2 ?s0) = 65500 \<and>
        \<not> servo_id (invocations ?c 2 ?s0) < servo_count (invocations ?c 2 ?s0) \<and>
        \<not> unat (TCNT1 (invocations ?c 2 ?s0)) + 50 < unat (SERVO_PWM_INTERVAL_TICKS ?c) \<and>
        new_calls (invocations ?c 1 ?s0) (invocations ?c 2 ?s0)
          = [PinValue 1 5 LOW, CompareB 20000] \<and>
        OCR1B (invocations ?c 2 ?s0) \<noteq> TCNT1 (invocations ?c 2 ?s0) + 20 \<and>
        ticks_to_match (invocations ?c 2 ?s0) = 20036"
    unfolding nums by (rule run)
  with reg sample_interval show ?thesis by blast
qed

lemma reachable_near_wrap_run:
  "reachable sample_config (invocations sample_config 2 stale_compare)"
  using reachable_invocations [OF reachable_stale_compare stale_compare_fields(6)] by blast

text \<open>
  The same holds in general: with the cursor on the last channel, an invocation at a
  counter value of 65486 or more arms the frame boundary, for every frame of 50 ticks or
  more.
\<close>

lemma frame_end_wrapped:
  assumes "servo_id s < servo_count s" and "\<not> servo_id s + 1 < servo_count s"
    and "65486 \<le> unat t"
    and "50 \<le> unat (SERVO_PWM_INTERVAL_TICKS cfg)"
  shows "OCR1B (fire cfg t s) = ucast (SERVO_PWM_INTERVAL_TICKS cfg)"
proof -
  have id: "servo_id (fire cfg t s) = servo_id s + 1"
    using assms(1) by (simp add: fire_cursor)
  have "unat t < 2 ^ 16"
    using unsigned_less [of t, where 'a = nat] by simp
  with assms(3) have "unat (t + 50) = unat t + 50 - 2 ^ 16"
    by (simp add: unat_word_ariths mod_if) 
  with \<open>unat t < 2 ^ 16\<close> have "unat (t + 50) < 50" by simp
  then have "unat (ucast (t + 50) :: uint32) < 50"
    by (simp add: unsigned_ucast_eq unsigned_take_bit_eq take_bit_nat_eq_self)
  with assms(4) have "(ucast (t + 50) :: uint32) < SERVO_PWM_INTERVAL_TICKS cfg"
    by (simp only: word_less_nat_alt)
  then show ?thesis
    using assms(1,2) by (simp add: fire_timer id)
qed

subsection \<open>The pins the scheduler drives\<close>











end
